theory Spec2Isabelle
  imports Complex_Main "HOL-Library.AList" "HOL-Library.Char_ord" "HOL-Library.List_Lexorder"
    "HOL-Library.Multiset"
begin

section \<open>Values, records and exceptions of \<open>analyze_landmarks.py\<close>\<close>

text \<open>
  A landmark is a Python dictionary from column names to values of any type
  (\<open>Landmark = Dict[str, Any]\<close>, built as an \<open>OrderedDict\<close>).  It is modelled as an
  association list in insertion order.  The values that occur are \<open>None\<close>, integers,
  floats, strings and IP addresses.  Floats are modelled as reals: the rounding of the
  individual floating-point operations is outside the model.  An address is modelled by
  its integer value, which is how Python orders two addresses of one IP version.
\<close>

type_synonym ipaddr = nat

datatype val = VNone | VInt int | VFloat real | VStr string | VAddr ipaddr

type_synonym landmark = "(string \<times> val) list"

type_synonym landmarks_table = "(ipaddr \<times> landmark) list"

record CountryInfo =
  ISO_A3 :: string
  ISO_A2 :: string
  NAME :: string

type_synonym country_info_table = "(string \<times> CountryInfo) list"

datatype error =
    KeyError string
  | TypeError
  | ValueError
  | ZeroDivisionError
  | AssertionError
  | IndexError
  | UnboundLocalError
  | FileExistsError
  | OSError
  | GeometryError
  | SystemExit string

text \<open>Sequencing of computations that may raise: the first exception wins.\<close>

definition and_then :: "error + 'a \<Rightarrow> ('a \<Rightarrow> error + 'b) \<Rightarrow> error + 'b" where
  "and_then r f = (case r of Inl e \<Rightarrow> Inl e | Inr x \<Rightarrow> f x)"

text \<open>\<open>d[k]\<close> raises \<open>KeyError\<close> on a missing key; \<open>d.get(k)\<close> returns \<open>None\<close>.\<close>

definition getitem :: "landmark \<Rightarrow> string \<Rightarrow> error + val" where
  "getitem d k = (case map_of d k of None \<Rightarrow> Inl (KeyError k) | Some v \<Rightarrow> Inr v)"

definition dict_get :: "landmark \<Rightarrow> string \<Rightarrow> val" where
  "dict_get d k = (case map_of d k of None \<Rightarrow> VNone | Some v \<Rightarrow> v)"

text \<open>
  \<open>x * TO_RAD\<close> with a float constant: defined on numbers, a \<open>TypeError\<close> on
  \<open>None\<close>, strings and addresses.
\<close>

definition as_number :: "val \<Rightarrow> error + real" where
  "as_number v = (case v of VFloat x \<Rightarrow> Inr x | VInt n \<Rightarrow> Inr (of_int n) | _ \<Rightarrow> Inl TypeError)"

definition coordinate :: "landmark \<Rightarrow> string \<Rightarrow> error + real" where
  "coordinate lm k = and_then (getitem lm k) as_number"

section \<open>Reconciliation of new landmarks with earlier results\<close>

definition TO_RAD :: real where
  "TO_RAD = pi / 180"

definition R1 :: real where
  "R1 = 6371.0088"

text \<open>
  The haversine formula as the source evaluates it, given the four angles in radians.
  \<open>math.sqrt\<close> raises \<open>ValueError\<close> on a negative argument and \<open>math.asin\<close>
  outside \<open>[-1, 1]\<close>.
\<close>

definition haversine_km :: "real \<Rightarrow> real \<Rightarrow> real \<Rightarrow> real \<Rightarrow> error + real" where
  "haversine_km n_lon n_lat o_lon o_lat =
     (let slat = sin ((n_lat - o_lat) / 2);
          slon = sin ((n_lon - o_lon) / 2);
          h = slat * slat + cos o_lat * cos n_lat * slon * slon
      in if h < 0 then Inl ValueError
         else if 1 < sqrt h then Inl ValueError
         else Inr (2 * R1 * arcsin (sqrt h)))"

text \<open>
  \<open>not_same_location(lm, old_lm)\<close>, lines 546-568.  All four angles are read from
  \<open>lm\<close>, as in the source; \<open>old_lm\<close> is not consulted.
\<close>

definition not_same_location :: "landmark \<Rightarrow> landmark \<Rightarrow> error + bool" where
  "not_same_location lm old_lm =
     and_then (coordinate lm ''longitude'') (\<lambda>lon1.
     and_then (coordinate lm ''latitude'') (\<lambda>lat1.
     and_then (coordinate lm ''longitude'') (\<lambda>lon2.
     and_then (coordinate lm ''latitude'') (\<lambda>lat2.
     and_then (haversine_km (lon1 * TO_RAD) (lat1 * TO_RAD) (lon2 * TO_RAD) (lat2 * TO_RAD))
       (\<lambda>d. Inr (10 < d))))))"

text \<open>
  The inner loop over \<open>ccs.keys()\<close>, lines 576-581: every country code gets the old
  value (or \<open>None\<close>), and one \<open>None\<close> redirects the record to \<open>incomplete\<close>.  The flag
  is \<open>True\<close> when \<open>dest_list\<close> is \<open>incomplete\<close>.
\<close>

fun fill_countries :: "landmark \<Rightarrow> string list \<Rightarrow> landmark \<Rightarrow> bool \<Rightarrow> landmark \<times> bool" where
  "fill_countries old_lm [] lm inc = (lm, inc)"
| "fill_countries old_lm (cc # isos) lm inc =
     (let v = dict_get old_lm cc
      in fill_countries old_lm isos (AList.update cc v lm) (inc \<or> v = VNone))"

definition EMPTY_LM :: landmark where
  "EMPTY_LM = []"

text \<open>\<open>old_landmarks.get(addr, EMPTY_LM)\<close>.\<close>

definition old_record :: "landmarks_table \<Rightarrow> ipaddr \<Rightarrow> landmark" where
  "old_record old_landmarks addr =
     (case map_of old_landmarks addr of None \<Rightarrow> EMPTY_LM | Some l \<Rightarrow> l)"

text \<open>The loop over \<open>new_landmarks.items()\<close>, lines 571-583.\<close>

fun reconcile_loop ::
  "landmarks_table \<Rightarrow> string list \<Rightarrow> landmarks_table \<Rightarrow> landmark list \<Rightarrow> landmark list
     \<Rightarrow> error + (landmark list \<times> landmark list)" where
  "reconcile_loop old_landmarks isos [] lm_complete lm_incomplete = Inr (lm_complete, lm_incomplete)"
| "reconcile_loop old_landmarks isos ((addr, lm) # rest) lm_complete lm_incomplete =
     (let old_lm = old_record old_landmarks addr
      in case not_same_location lm old_lm of
           Inl e \<Rightarrow> Inl e
         | Inr moved \<Rightarrow>
             (case fill_countries (if moved then EMPTY_LM else old_lm) isos lm False of
                (lm', inc) \<Rightarrow>
                  if inc then reconcile_loop old_landmarks isos rest lm_complete (lm_incomplete @ [lm'])
                  else reconcile_loop old_landmarks isos rest (lm_complete @ [lm']) lm_incomplete))"

definition reconcile_landmarks ::
  "landmarks_table \<Rightarrow> landmarks_table \<Rightarrow> country_info_table
     \<Rightarrow> error + (landmark list \<times> landmark list)" where
  "reconcile_landmarks old_landmarks new_landmarks ccs =
     reconcile_loop old_landmarks (map fst ccs) new_landmarks [] []"

text \<open>
  The move-detection rule in the words of the specification: the great-circle distance
  between the new and the \<^emph>\<open>old\<close> coordinates, in kilometres.
\<close>

definition spec_moved :: "landmark \<Rightarrow> landmark \<Rightarrow> error + bool" where
  "spec_moved lm old_lm =
     and_then (coordinate lm ''longitude'') (\<lambda>lon1.
     and_then (coordinate lm ''latitude'') (\<lambda>lat1.
     and_then (coordinate old_lm ''longitude'') (\<lambda>lon2.
     and_then (coordinate old_lm ''latitude'') (\<lambda>lat2.
     and_then (haversine_km (lon1 * TO_RAD) (lat1 * TO_RAD) (lon2 * TO_RAD) (lat2 * TO_RAD))
       (\<lambda>d. Inr (10 < d))))))"

section \<open>The geometry interface\<close>

text \<open>
  Shapely, pyproj and GEOS are outside the repository.  The operations the source calls
  are the fields of a record that every function below takes as its first argument:
  \<open>sh.is_valid\<close> (a boolean attribute), \<open>sh.buffer(0)\<close> (\<open>None\<close> when it raises),
  \<open>unary_union\<close>, the transformation into the azimuthal-equidistant projection centred
  on a landmark (built from the map's CRS and the two coordinate values of the record),
  and \<open>distance\<close> and \<open>intersects\<close> from \<open>Point(0, 0)\<close>.
\<close>

record 'g shapely =
  is_valid :: "'g \<Rightarrow> bool"
  buffer0 :: "'g \<Rightarrow> 'g option"
  unary_union :: "'g list \<Rightarrow> 'g"
  to_aeqd :: "string \<Rightarrow> val \<Rightarrow> val \<Rightarrow> 'g \<Rightarrow> 'g"
  distance0 :: "'g \<Rightarrow> real"
  intersects0 :: "'g \<Rightarrow> bool"

text \<open>
  A one-dimensional instance, on which the functions can be evaluated: a shape is a
  segment of the real line, valid when its end points are in order; \<open>buffer(0)\<close> puts
  them in order; the union takes the first start and the last end (so it can be invalid,
  the case line 486 guards against); the projection moves the landmark's longitude to
  the origin.
\<close>

definition segment_distance :: "real \<times> real \<Rightarrow> real" where
  "segment_distance g = (if fst g \<le> 0 \<and> 0 \<le> snd g then 0 else min \<bar>fst g\<bar> \<bar>snd g\<bar>)"

definition segment_union :: "(real \<times> real) list \<Rightarrow> real \<times> real" where
  "segment_union gs = (case gs of [] \<Rightarrow> (0, 0) | g # _ \<Rightarrow> (fst g, snd (last gs)))"

definition segment_shift :: "val \<Rightarrow> real \<times> real \<Rightarrow> real \<times> real" where
  "segment_shift lon g = (case lon of VFloat x \<Rightarrow> (fst g - x, snd g - x) | _ \<Rightarrow> g)"

definition segments :: "(real \<times> real) shapely" where
  "segments = \<lparr>
     is_valid = (\<lambda>g. fst g \<le> snd g),
     buffer0 = (\<lambda>g. Some (min (fst g) (snd g), max (fst g) (snd g))),
     unary_union = segment_union,
     to_aeqd = (\<lambda>crs lon lat g. segment_shift lon g),
     distance0 = segment_distance,
     intersects0 = (\<lambda>g. fst g \<le> 0 \<and> 0 \<le> snd g) \<rparr>"

section \<open>The distance computer\<close>

text \<open>
  Python's \<open>round(x)\<close> on a float rounds to the nearest integer, ties to the even one;
  \<open>int(x)\<close> truncates towards zero.
\<close>

definition py_round :: "real \<Rightarrow> int" where
  "py_round x =
     (let f = \<lfloor>x\<rfloor>; d = x - of_int f
      in if d < 1 / 2 then f else if 1 / 2 < d then f + 1 else if even f then f else f + 1)"

definition py_int :: "real \<Rightarrow> int" where
  "py_int x = (if 0 \<le> x then \<lfloor>x\<rfloor> else \<lceil>x\<rceil>)"

text \<open>
  Lines 711-728: a transformed map that is invalid gets one \<open>buffer(0)\<close>; when that
  raises, or leaves it invalid, the country is skipped (\<open>None\<close>).
\<close>

definition repair :: "'g shapely \<Rightarrow> 'g \<Rightarrow> 'g option" where
  "repair S aeqd_mapg =
     (if is_valid S aeqd_mapg then Some aeqd_mapg
      else case buffer0 S aeqd_mapg of
             None \<Rightarrow> None
           | Some fixed \<Rightarrow> if is_valid S fixed then Some fixed else None)"

text \<open>
  Lines 730-744: the value stored for one country.  Division by a zero resolution
  raises \<open>ZeroDivisionError\<close>.
\<close>

definition landmark_distance :: "'g shapely \<Rightarrow> real \<Rightarrow> 'g \<Rightarrow> error + val" where
  "landmark_distance S resolution aeqd_mapg =
     (if resolution = 0 then Inl ZeroDivisionError
      else let dist = distance0 S aeqd_mapg;
               dist = of_int (py_round (dist / resolution)) * resolution;
               idist = py_int dist;
               inside = intersects0 S aeqd_mapg
           in if of_int idist = dist then Inr (VInt (if inside then - idist else idist))
              else Inr (VFloat (if inside then - dist else dist)))"

text \<open>The loop over \<open>maps.items()\<close>, lines 705-744.\<close>

fun analyze_loop ::
  "'g shapely \<Rightarrow> string \<Rightarrow> val \<Rightarrow> val \<Rightarrow> real \<Rightarrow> (string \<times> 'g) list \<Rightarrow> landmark
     \<Rightarrow> error + landmark" where
  "analyze_loop S map_crs lm_lon lm_lat resolution [] landmark = Inr landmark"
| "analyze_loop S map_crs lm_lon lm_lat resolution ((cc, mapg) # rest) landmark =
     (case getitem landmark cc of
        Inl e \<Rightarrow> Inl e
      | Inr v \<Rightarrow>
          if v \<noteq> VNone then analyze_loop S map_crs lm_lon lm_lat resolution rest landmark
          else (case repair S (to_aeqd S map_crs lm_lon lm_lat mapg) of
                  None \<Rightarrow> analyze_loop S map_crs lm_lon lm_lat resolution rest landmark
                | Some aeqd_mapg \<Rightarrow>
                    (case landmark_distance S resolution aeqd_mapg of
                       Inl e \<Rightarrow> Inl e
                     | Inr d \<Rightarrow>
                         analyze_loop S map_crs lm_lon lm_lat resolution rest
                           (AList.update cc d landmark))))"

text \<open>
  \<open>analyze_landmark\<close>, lines 664-746.  \<open>WORKER_DATA\<close> is the global the workers
  inherit: \<open>None\<close> until \<open>main\<close> sets it to the maps, their CRS and the resolution.
\<close>

definition analyze_landmark ::
  "'g shapely \<Rightarrow> ((string \<times> 'g) list \<times> string \<times> real) option \<Rightarrow> landmark \<Rightarrow> error + landmark" where
  "analyze_landmark S WORKER_DATA landmark =
     (case WORKER_DATA of
        None \<Rightarrow> Inl AssertionError
      | Some (maps, map_crs, resolution) \<Rightarrow>
          and_then (getitem landmark ''longitude'') (\<lambda>lm_lon.
          and_then (getitem landmark ''latitude'') (\<lambda>lm_lat.
            analyze_loop S map_crs lm_lon lm_lat resolution maps landmark)))"

section \<open>The country map builder\<close>

text \<open>
  The lines \<open>load_maps\<close> writes to \<open>sys.stderr\<close>.  Each one starts with the name of
  the map file, which is left out; the constructors stand for the format strings
  \<^item> \<open>unknown ISO_A3 code {}\<close> (line 404),
  \<^item> \<open>duplicate GU_A3 code {}\<close> (line 423),
  \<^item> the text of an exception raised while the map is read (line 437),
  \<^item> \<open>no features for ISO_A3 code {} ({})\<close> (line 447),
  \<^item> \<open>GU '{}' not found in map\<close> (line 463),
  \<^item> \<open>GU '{}' is invalid: {}\<close> (line 471),
  \<^item> \<open>map for '{}' is invalid after merge: {}\<close> (line 490).

  Every assignment \<open>success = False\<close> of the source stands next to one of these
  writes and nothing else writes, so \<open>success\<close> is \<open>True\<close> exactly when nothing has
  been written; the model keeps the list of lines and reads \<open>success\<close> off it.
\<close>

datatype diagnostic =
    UnknownISO string
  | DuplicateGU string
  | MapError string
  | NoFeatures string string
  | GUNotFound string
  | GUInvalid string
  | InvalidAfterMerge string

text \<open>
  A feature of the map with its two properties already stripped and in upper case.  The
  map file either cannot be opened, or yields its CRS and some features and then perhaps
  raises (the text of the exception).
\<close>

record 'g feature =
  GU_A3 :: string
  SOV_A3 :: string
  geometry :: 'g

datatype 'g mapfile = OpenFails string | MapColl string "'g feature list" "string option"

type_synonym merge_rules = "(string \<times> string list) list"

text \<open>Lines 401-406: rules for codes the country table does not know.\<close>

fun unknown_codes :: "country_info_table \<Rightarrow> string list \<Rightarrow> diagnostic list" where
  "unknown_codes ccs [] = []"
| "unknown_codes ccs (cc # rest) =
     (if cc \<in> fst ` set ccs then unknown_codes ccs rest
      else UnknownISO cc # unknown_codes ccs rest)"

text \<open>\<open>add_rules[SOV_A3].append(GU_A3)\<close> on a \<open>defaultdict(list)\<close>.\<close>

definition append_rule :: "string \<Rightarrow> string \<Rightarrow> merge_rules \<Rightarrow> merge_rules" where
  "append_rule sov gu add_rules =
     (case map_of add_rules sov of
        None \<Rightarrow> add_rules @ [(sov, [gu])]
      | Some gus \<Rightarrow> AList.update sov (gus @ [gu]) add_rules)"

text \<open>
  The loop over the features, lines 415-434.  The state is \<open>all_gus\<close>, \<open>add_rules\<close>
  and the lines written.
\<close>

fun read_features ::
  "country_info_table \<Rightarrow> merge_rules \<Rightarrow> 'g feature list
     \<Rightarrow> (string \<times> 'g) list \<times> merge_rules \<times> diagnostic list
     \<Rightarrow> (string \<times> 'g) list \<times> merge_rules \<times> diagnostic list" where
  "read_features ccs rules [] st = st"
| "read_features ccs rules (f # fs) (all_gus, add_rules, err) =
     (if GU_A3 f \<in> fst ` set all_gus
      then read_features ccs rules fs (all_gus, add_rules, err @ [DuplicateGU (GU_A3 f)])
      else read_features ccs rules fs
             (all_gus @ [(GU_A3 f, geometry f)],
              (if SOV_A3 f \<in> fst ` set ccs \<and> SOV_A3 f \<notin> fst ` set rules
               then append_rule (SOV_A3 f) (GU_A3 f) add_rules else add_rules),
              err))"

text \<open>
  The \<open>try\<close> block, lines 411-438: the CRS when the file could be opened (\<open>map_crs\<close>
  stays unbound otherwise), and the state after the features that were read.
\<close>

definition read_map ::
  "country_info_table \<Rightarrow> merge_rules \<Rightarrow> 'g mapfile
     \<Rightarrow> string option \<times> (string \<times> 'g) list \<times> merge_rules \<times> diagnostic list" where
  "read_map ccs rules mf =
     (case mf of
        OpenFails e \<Rightarrow> (None, [], [], [MapError e])
      | MapColl crs fs exc \<Rightarrow>
          (case read_features ccs rules fs ([], [], []) of
             (all_gus, add_rules, err) \<Rightarrow>
               (Some crs, all_gus, add_rules,
                err @ (case exc of None \<Rightarrow> [] | Some e \<Rightarrow> [MapError e]))))"

text \<open>Lines 440-442: the implicit rules join the explicit ones.\<close>

fun merge_add_rules :: "merge_rules \<Rightarrow> merge_rules \<Rightarrow> error + merge_rules" where
  "merge_add_rules [] rules = Inr rules"
| "merge_add_rules ((cc, gus) # rest) rules =
     (if cc \<in> fst ` set rules then Inl AssertionError
      else merge_add_rules rest (AList.update cc gus rules))"

text \<open>Lines 444-451: countries of the table without a rule.\<close>

fun uncovered :: "merge_rules \<Rightarrow> country_info_table \<Rightarrow> diagnostic list" where
  "uncovered rules [] = []"
| "uncovered rules ((cc, info) # rest) =
     (if cc \<in> fst ` set rules then uncovered rules rest
      else NoFeatures cc (NAME info) # uncovered rules rest)"

text \<open>
  The inner loop over the units of one rule, lines 458-475.  \<open>all_gus.pop(gu)\<close>
  removes the unit.  When the pop raises \<open>KeyError\<close> the handler writes its line and
  the loop body goes on to \<open>asShape(geo)\<close> with the \<open>geo\<close> of an earlier iteration; when
  no pop has succeeded yet \<open>geo\<close> is unbound and the read raises \<open>UnboundLocalError\<close>.
  The state is \<open>all_gus\<close>, \<open>geo\<close>, the lines written and \<open>grp\<close>.
\<close>

fun check_units ::
  "'g shapely \<Rightarrow> string list
     \<Rightarrow> (string \<times> 'g) list \<times> 'g option \<times> diagnostic list \<times> 'g list
     \<Rightarrow> (error \<times> diagnostic list) + ((string \<times> 'g) list \<times> 'g option \<times> diagnostic list \<times> 'g list)" where
  "check_units S [] st = Inr st"
| "check_units S (gu # gus) (all_gus, geo, err, grp) =
     (case (case map_of all_gus gu of
              Some g \<Rightarrow> (AList.delete gu all_gus, Some g, err)
            | None \<Rightarrow> (all_gus, geo, err @ [GUNotFound gu])) of
        (all_gus', geo', err') \<Rightarrow>
          (case geo' of
             None \<Rightarrow> Inl (UnboundLocalError, err')
           | Some sh \<Rightarrow>
               if is_valid S sh then check_units S gus (all_gus', geo', err', grp @ [sh])
               else check_units S gus (all_gus', geo', err' @ [GUInvalid gu], grp)))"

text \<open>The outer loop over \<open>rules.items()\<close>, lines 455-477, building \<open>groups\<close>.\<close>

fun check_groups ::
  "'g shapely \<Rightarrow> merge_rules
     \<Rightarrow> (string \<times> 'g) list \<times> 'g option \<times> diagnostic list \<times> (string \<times> 'g list) list
     \<Rightarrow> (error \<times> diagnostic list) + ((string \<times> 'g) list \<times> 'g option \<times> diagnostic list \<times> (string \<times> 'g list) list)" where
  "check_groups S [] st = Inr st"
| "check_groups S ((cc, gus) # rest) (all_gus, geo, err, groups) =
     (case check_units S gus (all_gus, geo, err, []) of
        Inl e \<Rightarrow> Inl e
      | Inr (all_gus', geo', err', grp) \<Rightarrow>
          check_groups S rest (all_gus', geo', err', AList.update cc grp groups))"

text \<open>
  The merge loop, lines 484-496.  An invalid union gets \<open>buffer(0)\<close>; then line 488
  calls \<open>sh.is_valid()\<close>.  \<open>is_valid\<close> is the boolean attribute read at lines 467,
  486, 711 and 714, and calling a boolean raises \<open>TypeError\<close>, whatever the repaired
  shape is: the lines 489-495 are never reached.  A \<open>buffer(0)\<close> that raises ends the
  run with that exception.
\<close>

fun merge_groups ::
  "'g shapely \<Rightarrow> (string \<times> 'g list) list \<Rightarrow> (string \<times> 'g) list
     \<Rightarrow> (error \<times> diagnostic list) + (string \<times> 'g) list" where
  "merge_groups S [] maps = Inr maps"
| "merge_groups S ((cc, gus) # rest) maps =
     (let sh = unary_union S gus
      in if is_valid S sh then merge_groups S rest (AList.update cc sh maps)
         else (case buffer0 S sh of
                 None \<Rightarrow> Inl (GeometryError, [])
               | Some sh' \<Rightarrow> Inl (TypeError, [])))"

text \<open>
  \<open>load_maps\<close>, lines 366-501.  \<open>Inl\<close> is a run that ends with an exception (a
  non-zero exit), together with what it wrote to \<open>sys.stderr\<close>; \<open>SystemExit ''1''\<close> is
  \<open>raise SystemExit(1)\<close>.
\<close>

definition load_maps ::
  "'g shapely \<Rightarrow> 'g mapfile \<Rightarrow> merge_rules \<Rightarrow> country_info_table
     \<Rightarrow> (error \<times> diagnostic list) + ((string \<times> 'g) list \<times> string)" where
  "load_maps S mf rules ccs =
     (let err1 = unknown_codes ccs (map fst rules)
      in case read_map ccs rules mf of
           (map_crs, all_gus, add_rules, err2) \<Rightarrow>
             (case merge_add_rules add_rules rules of
                Inl e \<Rightarrow> Inl (e, err1 @ err2)
              | Inr rules' \<Rightarrow>
                  (let err3 = uncovered rules' ccs
                   in case check_groups S rules' (all_gus, None, err1 @ err2 @ err3, []) of
                        Inl e \<Rightarrow> Inl e
                      | Inr (all_gus', geo, err, groups) \<Rightarrow>
                          if err \<noteq> [] then Inl (SystemExit ''1'', err)
                          else (case merge_groups S (sort_key fst groups) [] of
                                  Inl e \<Rightarrow> Inl e
                                | Inr maps \<Rightarrow>
                                    (case map_crs of
                                       None \<Rightarrow> Inl (UnboundLocalError, [])
                                     | Some crs \<Rightarrow> Inr (maps, crs))))))"

section \<open>Atomic replacement of a file\<close>

text \<open>
  A file is named by its directory and its name in that directory; the file system maps
  such names to contents.  \<open>os.path\<close> is not modelled: \<open>atomic_rewrite\<close> receives the
  destination as the three parts it computes from \<open>name\<close>, namely
  \<open>os.path.dirname(name)\<close> and the \<open>base\<close> and \<open>ext\<close> of
  \<open>os.path.splitext(os.path.basename(name))\<close>.
\<close>

type_synonym path = "string \<times> string"

type_synonym filesystem = "path \<Rightarrow> string option"

text \<open>
  The system calls \<open>atomic_rewrite\<close> makes.  \<open>Create\<close> is the exclusive creation of
  the temporary file, \<open>Link\<close> is \<open>os.link\<close> (it refuses an existing target) and
  \<open>Replace\<close> is \<open>os.replace\<close>.  Flushing and syncing do not change contents.
\<close>

datatype fs_op =
    Create path
  | Write path string
  | Flush path
  | Fsync path
  | Link path path
  | Replace path path
  | Unlink path

fun apply_op :: "filesystem \<Rightarrow> fs_op \<Rightarrow> error + filesystem" where
  "apply_op fs (Create p) = (if fs p = None then Inr (fs(p \<mapsto> [])) else Inl FileExistsError)"
| "apply_op fs (Write p s) =
     (case fs p of None \<Rightarrow> Inl OSError | Some c \<Rightarrow> Inr (fs(p \<mapsto> c @ s)))"
| "apply_op fs (Flush p) = (if fs p = None then Inl OSError else Inr fs)"
| "apply_op fs (Fsync p) = (if fs p = None then Inl OSError else Inr fs)"
| "apply_op fs (Link src dst) =
     (case fs src of
        None \<Rightarrow> Inl OSError
      | Some c \<Rightarrow> if fs dst = None then Inr (fs(dst \<mapsto> c)) else Inl FileExistsError)"
| "apply_op fs (Replace src dst) =
     (case fs src of None \<Rightarrow> Inl OSError | Some c \<Rightarrow> Inr ((fs(src := None))(dst \<mapsto> c)))"
| "apply_op fs (Unlink p) = (if fs p = None then Inl OSError else Inr (fs(p := None)))"

text \<open>
  What can cut a run short: an I/O error raised by the \<open>n\<close>-th system call the run
  attempts (the call has no effect and the exception propagates, through the \<open>with\<close>
  statements), or the end of the process before that call (nothing more happens).
\<close>

datatype interruption = NoFault | IOErrorAt nat | KilledAt nat

datatype status = Done | Raised error | Killed

text \<open>The state of a run: the files, the calls made so far, the number of calls attempted.\<close>

type_synonym run_state = "filesystem \<times> fs_op list \<times> nat"

fun exec :: "interruption \<Rightarrow> run_state \<Rightarrow> fs_op list \<Rightarrow> status \<times> run_state" where
  "exec flt st [] = (Done, st)"
| "exec flt (fs, tr, n) (c # cs) =
     (if flt = KilledAt n then (Killed, (fs, tr, n))
      else if flt = IOErrorAt n then (Raised OSError, (fs, tr, Suc n))
      else case apply_op fs c of
             Inl e \<Rightarrow> (Raised e, (fs, tr, Suc n))
           | Inr fs' \<Rightarrow> exec flt (fs', tr @ [c], Suc n) cs)"

text \<open>
  The exit of \<open>with tempfile.NamedTemporaryFile(...)\<close> while an exception propagates:
  the temporary file is closed, which deletes it.
\<close>

definition cleanup :: "interruption \<Rightarrow> path \<Rightarrow> error \<Rightarrow> run_state \<Rightarrow> status \<times> run_state" where
  "cleanup flt tmp e st =
     (case exec flt st [Unlink tmp] of
        (Done, st') \<Rightarrow> (Raised e, st')
      | other \<Rightarrow> other)"

text \<open>
  \<open>open_with_auto_compression(name, mode, ext=ext)\<close>, lines 115-155, for a given
  \<open>ext\<close>.  \<open>name\<close> is a path or, as in \<open>atomic_rewrite\<close>, a file object.  The result
  is the compression chosen, \<open>None\<close> for a plain \<open>open\<close>; the last branch asserts that
  \<open>name\<close> is a string or a file descriptor.
\<close>

datatype file_arg = PathName string | FileObject

datatype compression = Gzip | Bzip2 | Xz | Lzma

definition open_with_auto_compression :: "file_arg \<Rightarrow> string \<Rightarrow> error + compression option" where
  "open_with_auto_compression name ext =
     (let ext = (if take 1 ext = ''.'' then drop 1 ext else ext)
      in if ext = ''gz'' then Inr (Some Gzip)
         else if ext = ''bz2'' then Inr (Some Bzip2)
         else if ext = ''xz'' then Inr (Some Xz)
         else if ext = ''lzma'' then Inr (Some Lzma)
         else (case name of PathName p \<Rightarrow> Inr None | FileObject \<Rightarrow> Inl AssertionError))"

text \<open>
  The libraries behind the writer: the bytes a compressed stream holds for a text, the
  line \<open>csv.writer\<close> renders for a row of fields, the field it renders for a value, and
  \<open>str()\<close> of a value.
\<close>

record io_lib =
  encode :: "compression option \<Rightarrow> string \<Rightarrow> string"
  csv_line :: "string list \<Rightarrow> string"
  csv_field :: "val \<Rightarrow> string"
  str_of :: "val \<Rightarrow> string"

text \<open>
  \<open>atomic_rewrite(name, mode)\<close>, lines 158-217.  \<open>rnd\<close> is the random part of the
  temporary file's name.  The body of the \<open>with\<close> statement is given by the text it
  writes and the exception it raises, if any.  The result is how the run ended, the
  files, and the system calls made.
\<close>

definition tmp_path :: "string \<Rightarrow> string \<Rightarrow> string \<Rightarrow> string \<Rightarrow> path" where
  "tmp_path rnd dir base ext = (dir, base @ ''-'' @ rnd @ ext)"

definition xname_path :: "string \<Rightarrow> string \<Rightarrow> string \<Rightarrow> string \<Rightarrow> path" where
  "xname_path rnd dir base ext = (dir, base @ ''-'' @ rnd @ ext @ ''.'')"

definition name_path :: "string \<Rightarrow> string \<Rightarrow> string \<Rightarrow> path" where
  "name_path dir base ext = (dir, base @ ext)"

definition atomic_rewrite ::
  "io_lib \<Rightarrow> interruption \<Rightarrow> filesystem \<Rightarrow> string \<Rightarrow> string \<Rightarrow> string \<Rightarrow> string \<Rightarrow> string
     \<Rightarrow> string \<times> error option \<Rightarrow> status \<times> filesystem \<times> fs_op list" where
  "atomic_rewrite lib flt fs rnd dir base ext mode body =
     (if mode \<notin> set [''w'', ''wb'', ''wt'', ''w+'', ''w+b'', ''w+t''] then (Raised ValueError, fs, [])
      else
        let tmp = tmp_path rnd dir base ext;
            xname = xname_path rnd dir base ext;
            name = name_path dir base ext;
            (st, fs', tr, n) =
              (case exec flt (fs, [], 0) [Create tmp] of
                 (Done, st1) \<Rightarrow>
                   (case open_with_auto_compression FileObject ext of
                      Inl e \<Rightarrow> cleanup flt tmp e st1
                    | Inr codec \<Rightarrow>
                        (case exec flt st1 [Write tmp (encode lib codec (fst body))] of
                           (Done, st2) \<Rightarrow>
                             (case snd body of
                                Some e \<Rightarrow> cleanup flt tmp e st2
                              | None \<Rightarrow>
                                  (case exec flt st2
                                          [Flush tmp, Flush tmp, Fsync tmp,
                                           Link tmp xname, Replace xname name] of
                                     (Done, st3) \<Rightarrow> exec flt st3 [Unlink tmp]
                                   | (Raised e, st3) \<Rightarrow> cleanup flt tmp e st3
                                   | (Killed, st3) \<Rightarrow> (Killed, st3)))
                         | (Raised e, st2) \<Rightarrow> cleanup flt tmp e st2
                         | (Killed, st2) \<Rightarrow> (Killed, st2)))
               | other \<Rightarrow> other)
        in (st, fs', tr))"

section \<open>The result writer\<close>

definition newline :: string where
  "newline = [CHR 0x0A]"

text \<open>\<open>sep.join(xs)\<close>.\<close>

fun join :: "string \<Rightarrow> string list \<Rightarrow> string" where
  "join sep [] = []"
| "join sep [x] = x"
| "join sep (x # y # ys) = x @ sep @ join sep (y # ys)"

text \<open>
  Lines 613-621 for one row whose key set differs from \<open>expected_keys\<close>: the exception
  raised.  \<open>row["addr"]\<close> raises \<open>KeyError\<close> when the row has no address.
\<close>

definition extra_keys :: "string list \<Rightarrow> landmark \<Rightarrow> string list" where
  "extra_keys expected_keys row = sort (filter (\<lambda>k. k \<notin> set expected_keys) (remdups (map fst row)))"

definition missing_keys :: "string list \<Rightarrow> landmark \<Rightarrow> string list" where
  "missing_keys expected_keys row = sort (filter (\<lambda>k. k \<notin> fst ` set row) (remdups expected_keys))"

definition bad_record_message :: "io_lib \<Rightarrow> string list \<Rightarrow> landmark \<Rightarrow> val \<Rightarrow> string" where
  "bad_record_message lib expected_keys row addr =
     ''internal error: bad record for '' @ str_of lib addr @ '':'' @ newline
     @ (if extra_keys expected_keys row \<noteq> []
        then ''    extra keys: '' @ join '', '' (extra_keys expected_keys row) @ newline else [])
     @ (if missing_keys expected_keys row \<noteq> []
        then ''  missing keys: '' @ join '', '' (missing_keys expected_keys row) @ newline else [])"

definition bad_record :: "io_lib \<Rightarrow> string list \<Rightarrow> landmark \<Rightarrow> error" where
  "bad_record lib expected_keys row =
     (case getitem row ''addr'' of
        Inl e \<Rightarrow> e
      | Inr addr \<Rightarrow> SystemExit (bad_record_message lib expected_keys row addr))"

text \<open>The loop of lines 611-621: the exception of the first row that differs, if any.\<close>

fun check_rows :: "io_lib \<Rightarrow> string list \<Rightarrow> landmark list \<Rightarrow> error option" where
  "check_rows lib expected_keys [] = None"
| "check_rows lib expected_keys (row # rest) =
     (if fst ` set row \<noteq> set expected_keys then Some (bad_record lib expected_keys row)
      else check_rows lib expected_keys rest)"

text \<open>
  Line 623: the stable sort by \<open>row["addr"]\<close>.  The addresses are \<open>ipaddress\<close>
  objects in every record that \<open>load_landmarks\<close> builds; the model raises \<open>TypeError\<close>
  for any other value.
\<close>

definition addr_of :: "landmark \<Rightarrow> error + ipaddr" where
  "addr_of row =
     (case map_of row ''addr'' of
        None \<Rightarrow> Inl (KeyError ''addr'')
      | Some (VAddr a) \<Rightarrow> Inr a
      | Some _ \<Rightarrow> Inl TypeError)"

definition addr_key :: "landmark \<Rightarrow> ipaddr" where
  "addr_key row = (case addr_of row of Inr a \<Rightarrow> a | Inl e \<Rightarrow> 0)"

fun first_error :: "(error + 'a) list \<Rightarrow> error option" where
  "first_error [] = None"
| "first_error (Inl e # rs) = Some e"
| "first_error (Inr x # rs) = first_error rs"

definition sort_results :: "landmark list \<Rightarrow> error + landmark list" where
  "sort_results results =
     (case first_error (map addr_of results) of
        Some e \<Rightarrow> Inl e
      | None \<Rightarrow> Inr (sort_key addr_key results))"

text \<open>Lines 632-648: the order of the columns.\<close>

definition dist_columns :: "string list \<Rightarrow> country_info_table \<Rightarrow> string list" where
  "dist_columns expected_keys ccs =
     sort (filter (\<lambda>k. k \<notin> set [''addr'', ''latitude'', ''longitude''] \<and> k \<in> fst ` set ccs)
             expected_keys)"

definition meta_columns :: "string list \<Rightarrow> country_info_table \<Rightarrow> string list" where
  "meta_columns expected_keys ccs =
     sort (filter (\<lambda>k. k \<notin> set [''addr'', ''latitude'', ''longitude''] \<and> k \<notin> fst ` set ccs)
             expected_keys)"

definition columns :: "string list \<Rightarrow> country_info_table \<Rightarrow> string list" where
  "columns expected_keys ccs =
     [''addr''] @ meta_columns expected_keys ccs @ [''longitude'', ''latitude'']
     @ dist_columns expected_keys ccs"

text \<open>Lines 651-656: the header and one line per row, with the fields in column order.\<close>

definition csv_text :: "io_lib \<Rightarrow> string list \<Rightarrow> landmark list \<Rightarrow> string" where
  "csv_text lib cols rows =
     csv_line lib cols
     @ concat (map (\<lambda>row. csv_line lib (map (\<lambda>k. csv_field lib (dict_get row k)) cols)) rows)"

text \<open>
  An instance of the libraries on which the writer can be evaluated: no compression,
  fields joined by commas, a string rendered as itself, \<open>None\<close> as the empty field,
  an address as that many stars and any other value as a question mark.
\<close>

definition plain_field :: "val \<Rightarrow> string" where
  "plain_field v =
     (case v of VStr s \<Rightarrow> s | VNone \<Rightarrow> [] | VAddr a \<Rightarrow> replicate a (CHR ''*'') | _ \<Rightarrow> ''?'')"

definition plain_lib :: io_lib where
  "plain_lib = \<lparr>
     encode = (\<lambda>codec text. text),
     csv_line = (\<lambda>fields. join '','' fields @ newline),
     csv_field = plain_field,
     str_of = plain_field \<rparr>"

text \<open>A file system that holds one file, an earlier result.\<close>

definition fs0 :: filesystem where
  "fs0 = (\<lambda>p. if p = (''out'', ''r.csv.gz'') then Some ''old'' else None)"

text \<open>\<open>rewrite_results\<close>, lines 588-656.\<close>

definition rewrite_results ::
  "io_lib \<Rightarrow> interruption \<Rightarrow> filesystem \<Rightarrow> string \<Rightarrow> string \<Rightarrow> string \<Rightarrow> string
     \<Rightarrow> landmark list \<Rightarrow> country_info_table \<Rightarrow> status \<times> filesystem \<times> fs_op list" where
  "rewrite_results lib flt fs rnd dir base ext results ccs =
     (case results of
        [] \<Rightarrow> (Raised IndexError, fs, [])
      | first # others \<Rightarrow>
          (let expected_keys = remdups (map fst first)
           in if ''addr'' \<notin> set expected_keys \<or> ''longitude'' \<notin> set expected_keys
                 \<or> ''latitude'' \<notin> set expected_keys
              then (Raised AssertionError, fs, [])
              else (case check_rows lib expected_keys results of
                      Some e \<Rightarrow> (Raised e, fs, [])
                    | None \<Rightarrow>
                        (case sort_results results of
                           Inl e \<Rightarrow> (Raised e, fs, [])
                         | Inr sorted_results \<Rightarrow>
                             atomic_rewrite lib flt fs rnd dir base ext ''wt''
                               (csv_text lib (columns expected_keys ccs) sorted_results, None)))))"

section \<open>Properties of the reconciliation\<close>

lemma haversine_km_same: "haversine_km a b a b = Inr 0"
  by (simp add: haversine_km_def)

lemma haversine_km_meridian:
  assumes "\<bar>a - b\<bar> \<le> pi"
  shows "haversine_km l a l b = Inr (R1 * \<bar>a - b\<bar>)"
proof -
  define x where "x = \<bar>a - b\<bar> / 2"
  have x: "0 \<le> x" "x \<le> pi / 2" using assms by (simp_all add: x_def)
  have neg: "sin ((a - b) / 2) = - sin ((b - a) / 2)"
  proof -
    have "(a - b) / 2 = - ((b - a) / 2)" by (simp add: field_simps)
    then show ?thesis by (simp only: sin_minus)
  qed
  have h: "sin ((a - b) / 2) * sin ((a - b) / 2) = sin x * sin x"
  proof (cases "a \<le> b")
    case True
    then have e: "(b - a) / 2 = x" by (simp add: x_def)
    show ?thesis unfolding neg e by simp
  next
    case False
    then have e: "(a - b) / 2 = x" by (simp add: x_def)
    show ?thesis unfolding e by simp
  qed
  have s: "0 \<le> sin x" using x by (intro sin_ge_zero) (auto intro: order_trans)
  have sq: "sqrt (sin x * sin x) = sin x" using s by simp
  have as: "arcsin (sin x) = x" using x by (intro arcsin_sin) (auto intro: order_trans)
  have hv: "sin ((a - b) / 2) * sin ((a - b) / 2)
              + cos b * cos a * sin ((l - l) / 2) * sin ((l - l) / 2) = sin x * sin x"
    using h by simp
  have "haversine_km l a l b = Inr (2 * R1 * x)"
    unfolding haversine_km_def Let_def hv sq as using s sin_le_one[of x] by (simp add: not_less)
  then show ?thesis by (simp add: x_def)
qed

text \<open>The source's check never reports a move: it measures a point against itself.\<close>

lemma not_same_location_False:
  "not_same_location lm old_lm = Inr b \<Longrightarrow> \<not> b"
  by (auto simp: not_same_location_def and_then_def haversine_km_same split: sum.splits)

lemma not_same_location_coordinates:
  "coordinate lm ''longitude'' = Inr x \<Longrightarrow> coordinate lm ''latitude'' = Inr y
     \<Longrightarrow> not_same_location lm old_lm = Inr False"
  by (simp add: not_same_location_def and_then_def haversine_km_same)

text \<open>
  C1.  A landmark at longitude 0, latitude 0 whose earlier record lies at longitude 0,
  latitude 0.2 degrees is more than 10 km from that record, so the rule of the
  specification calls it moved and the earlier distances are to be discarded.  The
  source keeps them: the record comes back in \<open>complete\<close> with the old distance for USA.
\<close>

theorem reconcile_landmarks_keeps_moved_record:
  "spec_moved [(''addr'', VAddr 1), (''longitude'', VFloat 0), (''latitude'', VFloat 0)]
              [(''addr'', VAddr 1), (''longitude'', VFloat 0), (''latitude'', VFloat 0.2),
               (''USA'', VInt 70)] = Inr True
   \<and> reconcile_landmarks
        [(1, [(''addr'', VAddr 1), (''longitude'', VFloat 0), (''latitude'', VFloat 0.2),
              (''USA'', VInt 70)])]
        [(1, [(''addr'', VAddr 1), (''longitude'', VFloat 0), (''latitude'', VFloat 0)])]
        [(''USA'', \<lparr>ISO_A3 = ''USA'', ISO_A2 = ''US'', NAME = ''United States''\<rparr>)]
      = Inr ([[(''addr'', VAddr 1), (''longitude'', VFloat 0), (''latitude'', VFloat 0),
               (''USA'', VInt 70)]], [])"
proof -
  have "\<bar>0 * TO_RAD - 0.2 * TO_RAD\<bar> \<le> pi" by (simp add: TO_RAD_def)
  from haversine_km_meridian[OF this, of "0 * TO_RAD"] pi_ge_two
  have moved: "spec_moved [(''addr'', VAddr 1), (''longitude'', VFloat 0), (''latitude'', VFloat 0)]
              [(''addr'', VAddr 1), (''longitude'', VFloat 0), (''latitude'', VFloat 0.2),
               (''USA'', VInt 70)] = Inr True"
    by (simp add: spec_moved_def coordinate_def getitem_def as_number_def and_then_def
        TO_RAD_def R1_def)
  have kept: "reconcile_landmarks
        [(1, [(''addr'', VAddr 1), (''longitude'', VFloat 0), (''latitude'', VFloat 0.2),
              (''USA'', VInt 70)])]
        [(1, [(''addr'', VAddr 1), (''longitude'', VFloat 0), (''latitude'', VFloat 0)])]
        [(''USA'', \<lparr>ISO_A3 = ''USA'', ISO_A2 = ''US'', NAME = ''United States''\<rparr>)]
      = Inr ([[(''addr'', VAddr 1), (''longitude'', VFloat 0), (''latitude'', VFloat 0),
               (''USA'', VInt 70)]], [])"
    by (simp add: reconcile_landmarks_def not_same_location_def coordinate_def getitem_def
        as_number_def and_then_def haversine_km_same dict_get_def EMPTY_LM_def old_record_def)
  from moved kept show ?thesis by (rule conjI)
qed

text \<open>The loops of the reconciliation in closed form.\<close>

lemma fill_countries_eq:
  "fill_countries old_lm isos lm inc =
     (fold (\<lambda>c. AList.update c (dict_get old_lm c)) isos lm,
      inc \<or> (\<exists>c\<in>set isos. dict_get old_lm c = VNone))"
  by (induction isos arbitrary: lm inc) (auto simp: Let_def)

lemma map_of_fold_update:
  "map_of (fold (\<lambda>c. AList.update c (f c)) isos lm) k =
     (if k \<in> set isos then Some (f k) else map_of lm k)"
  by (induction isos arbitrary: lm) (auto simp: update_conv)

lemma map_of_fill_countries:
  "map_of (fst (fill_countries old_lm isos lm inc)) k =
     (if k \<in> set isos then Some (dict_get old_lm k) else map_of lm k)"
  by (simp add: fill_countries_eq map_of_fold_update)

lemma snd_fill_countries:
  "snd (fill_countries old_lm isos lm False) = (\<exists>c\<in>set isos. dict_get old_lm c = VNone)"
  by (simp add: fill_countries_eq)

lemma reconcile_loop_eq:
  assumes "\<And>a lm. (a, lm) \<in> set new \<Longrightarrow> \<exists>x y. coordinate lm ''longitude'' = Inr x \<and> coordinate lm ''latitude'' = Inr y"
  shows "reconcile_loop old isos new C I =
     Inr (C @ map fst (filter (\<lambda>r. \<not> snd r) (map (\<lambda>p. fill_countries (old_record old (fst p)) isos (snd p) False) new)),
          I @ map fst (filter snd (map (\<lambda>p. fill_countries (old_record old (fst p)) isos (snd p) False) new)))"
  using assms
proof (induction new arbitrary: C I)
  case Nil
  then show ?case by simp
next
  case (Cons p new)
  obtain a lm where p: "p = (a, lm)" by (cases p)
  from Cons.prems[of a lm] obtain x y where "coordinate lm ''longitude'' = Inr x" "coordinate lm ''latitude'' = Inr y"
    by (auto simp: p)
  then have nsl: "\<And>ol. not_same_location lm ol = Inr False" by (rule not_same_location_coordinates)
  have IH: "\<And>C I. reconcile_loop old isos new C I =
     Inr (C @ map fst (filter (\<lambda>r. \<not> snd r) (map (\<lambda>p. fill_countries (old_record old (fst p)) isos (snd p) False) new)),
          I @ map fst (filter snd (map (\<lambda>p. fill_countries (old_record old (fst p)) isos (snd p) False) new)))"
    by (rule Cons.IH) (use Cons.prems in auto)
  show ?case
    by (cases "fill_countries (old_record old a) isos lm False") (auto simp: p nsl IH Let_def)
qed

lemma distinct_map_partition:
  assumes "distinct (map h ys)"
  shows "distinct (map h (filter P ys) @ map h (filter (\<lambda>y. \<not> P y) ys))"
proof -
  from assms have inj: "inj_on h (set ys)" and d: "distinct ys" by (simp_all add: distinct_map)
  have "h ` {y \<in> set ys. P y} \<inter> h ` {y \<in> set ys. \<not> P y} = {}"
    using inj by (auto dest: inj_onD)
  then show ?thesis
    using assms by (auto simp: distinct_map_filter)
qed

text \<open>
  C3.  For tables as \<open>load_landmarks\<close> and \<open>load_country_codes\<close> build them (every new
  record has numeric coordinates and carries its own key under \<open>addr\<close>, the keys are
  distinct, and no country code is the lower-case word \<open>addr\<close>), \<open>reconcile_landmarks\<close>
  returns two lists whose lengths add up to the number of new landmarks; the addresses
  of the returned records are pairwise different and are exactly the addresses of the
  new table; every returned record has an entry for every country code, which is
  \<open>None\<close> or the value of the old record of the same address; the records in
  \<open>complete\<close> have no \<open>None\<close> among these entries and the records in \<open>incomplete\<close>
  have at least one.
\<close>

theorem reconcile_landmarks_partition:
  assumes coords: "\<And>a lm. (a, lm) \<in> set new \<Longrightarrow>
             \<exists>x y. coordinate lm ''longitude'' = Inr x \<and> coordinate lm ''latitude'' = Inr y"
    and keys: "distinct (map fst new)"
    and addrs: "\<And>a lm. (a, lm) \<in> set new \<Longrightarrow> map_of lm ''addr'' = Some (VAddr a)"
    and upper: "''addr'' \<notin> fst ` set ccs"
  shows "\<exists>lm_complete lm_incomplete.
           reconcile_landmarks old new ccs = Inr (lm_complete, lm_incomplete)
         \<and> length lm_complete + length lm_incomplete = length new
         \<and> distinct (map (\<lambda>lm. dict_get lm ''addr'') (lm_complete @ lm_incomplete))
         \<and> set (map (\<lambda>lm. dict_get lm ''addr'') (lm_complete @ lm_incomplete)) = VAddr ` fst ` set new
         \<and> (\<forall>lm \<in> set (lm_complete @ lm_incomplete). \<forall>c \<in> fst ` set ccs.
               map_of lm c \<noteq> None \<and>
               (dict_get lm c = VNone \<or>
                (\<exists>a prev. dict_get lm ''addr'' = VAddr a \<and> map_of old a = Some prev
                    \<and> dict_get lm c = dict_get prev c)))
         \<and> (\<forall>lm \<in> set lm_complete. \<forall>c \<in> fst ` set ccs. dict_get lm c \<noteq> VNone)
         \<and> (\<forall>lm \<in> set lm_incomplete. \<exists>c \<in> fst ` set ccs. dict_get lm c = VNone)"
proof -
  define isos where "isos = map fst ccs"
  define R where "R = (\<lambda>p. fill_countries (old_record old (fst p)) isos (snd p) False)"
  define ys where "ys = map R new"
  define C where "C = map fst (filter (\<lambda>r. \<not> snd r) ys)"
  define I where "I = map fst (filter snd ys)"
  define g where "g = (\<lambda>lm :: landmark. dict_get lm ''addr'')"
  have run: "reconcile_landmarks old new ccs = Inr (C, I)"
    unfolding reconcile_landmarks_def C_def I_def ys_def R_def isos_def
    by (simp add: reconcile_loop_eq[OF coords])
  have isos: "set isos = fst ` set ccs" by (simp add: isos_def)
  have noaddr: "''addr'' \<notin> set isos" using upper isos by simp
  \<comment> \<open>one record\<close>
  have fst_R: "map_of (fst (R (a, lm))) k =
      (if k \<in> set isos then Some (dict_get (old_record old a) k) else map_of lm k)" for a lm k
    by (simp add: R_def map_of_fill_countries)
  have snd_R: "snd (R (a, lm)) = (\<exists>c\<in>set isos. dict_get (old_record old a) c = VNone)" for a lm
    by (simp add: R_def snd_fill_countries)
  have g_R: "g (fst (R (a, lm))) = VAddr a" if "(a, lm) \<in> set new" for a lm
    using addrs[OF that] noaddr by (simp add: g_def dict_get_def fst_R)
  have c_R: "dict_get (fst (R (a, lm))) c = dict_get (old_record old a) c" if "c \<in> set isos" for a lm c
    using that by (simp add: dict_get_def fst_R)
  have in_ys: "\<exists>a lm. (a, lm) \<in> set new \<and> r = R (a, lm)" if "r \<in> set ys" for r
    using that by (auto simp: ys_def)
  \<comment> \<open>lengths\<close>
  have len: "length C + length I = length new"
  proof -
    have "length C + length I = length ys"
      unfolding C_def I_def length_map using sum_length_filter_compl[of "\<lambda>r. \<not> snd r" ys] by simp
    then show ?thesis by (simp add: ys_def)
  qed
  \<comment> \<open>addresses\<close>
  have gys: "map (g \<circ> fst) ys = map (VAddr \<circ> fst) new"
    unfolding ys_def using g_R by auto
  have "distinct (map (VAddr \<circ> fst) new)"
    using keys by (simp add: distinct_map inj_on_def comp_def)
  then have dys: "distinct (map (g \<circ> fst) ys)" by (simp add: gys)
  have CI: "map g (C @ I) = map (g \<circ> fst) (filter (\<lambda>r. \<not> snd r) ys)
              @ map (g \<circ> fst) (filter (\<lambda>r. \<not> \<not> snd r) ys)"
    by (simp add: C_def I_def)
  have dist: "distinct (map g (C @ I))"
    unfolding CI by (rule distinct_map_partition[OF dys])
  have "set (map g (C @ I)) = set (map (g \<circ> fst) ys)"
    unfolding CI by auto
  then have sets: "set (map g (C @ I)) = VAddr ` fst ` set new"
    by (simp only: gys) (simp add: image_comp)
  \<comment> \<open>entries\<close>
  have entries: "map_of lm' c \<noteq> None \<and>
               (dict_get lm' c = VNone \<or>
                (\<exists>a prev. g lm' = VAddr a \<and> map_of old a = Some prev
                    \<and> dict_get lm' c = dict_get prev c))"
    if lm': "lm' \<in> set (C @ I)" and c: "c \<in> set isos" for lm' c
  proof -
    from lm' obtain r where "r \<in> set ys" "lm' = fst r" by (auto simp: C_def I_def)
    with in_ys obtain a lm where m: "(a, lm) \<in> set new" and e: "lm' = fst (R (a, lm))" by blast
    have 1: "map_of lm' c \<noteq> None" using c by (simp add: e fst_R)
    have 2: "dict_get lm' c = dict_get (old_record old a) c" using c by (simp add: e c_R)
    have 3: "g lm' = VAddr a" using m by (simp add: e g_R)
    show ?thesis
    proof (cases "map_of old a")
      case None
      then have "dict_get (old_record old a) c = VNone"
        by (simp add: old_record_def EMPTY_LM_def dict_get_def)
      with 1 2 show ?thesis by simp
    next
      case (Some prev)
      then have "old_record old a = prev" by (simp add: old_record_def)
      with 1 2 3 Some show ?thesis by blast
    qed
  qed
  have compl: "dict_get lm' c \<noteq> VNone" if "lm' \<in> set C" "c \<in> set isos" for lm' c
  proof -
    from that(1) obtain r where r: "r \<in> set ys" "\<not> snd r" "lm' = fst r" by (auto simp: C_def)
    with in_ys obtain a lm where m: "(a, lm) \<in> set new" and e: "r = R (a, lm)" by blast
    from r(2) have "\<forall>c\<in>set isos. dict_get (old_record old a) c \<noteq> VNone" by (simp add: e snd_R)
    with that(2) show ?thesis by (simp add: r(3) e c_R)
  qed
  have incompl: "\<exists>c \<in> set isos. dict_get lm' c = VNone" if "lm' \<in> set I" for lm'
  proof -
    from that obtain r where r: "r \<in> set ys" "snd r" "lm' = fst r" by (auto simp: I_def)
    with in_ys obtain a lm where m: "(a, lm) \<in> set new" and e: "r = R (a, lm)" by blast
    from r(2) obtain c where "c \<in> set isos" "dict_get (old_record old a) c = VNone"
      by (auto simp: e snd_R)
    then show ?thesis by (auto simp: r(3) e c_R)
  qed
  have e1: "\<forall>lm \<in> set (C @ I). \<forall>c \<in> fst ` set ccs.
               map_of lm c \<noteq> None \<and>
               (dict_get lm c = VNone \<or>
                (\<exists>a prev. dict_get lm ''addr'' = VAddr a \<and> map_of old a = Some prev
                    \<and> dict_get lm c = dict_get prev c))"
    using entries unfolding g_def isos by (intro ballI) 
  have e2: "\<forall>lm \<in> set C. \<forall>c \<in> fst ` set ccs. dict_get lm c \<noteq> VNone"
    using compl unfolding isos by (intro ballI)
  have e3: "\<forall>lm \<in> set I. \<exists>c \<in> fst ` set ccs. dict_get lm c = VNone"
    using incompl unfolding isos by (intro ballI)
  show ?thesis
  proof (intro exI conjI)
    show "reconcile_landmarks old new ccs = Inr (C, I)" by (rule run)
    show "length C + length I = length new" by (rule len)
    show "distinct (map (\<lambda>lm. dict_get lm ''addr'') (C @ I))" using dist by (simp only: g_def)
    show "set (map (\<lambda>lm. dict_get lm ''addr'') (C @ I)) = VAddr ` fst ` set new"
      using sets by (simp only: g_def)
    show "\<forall>lm \<in> set (C @ I). \<forall>c \<in> fst ` set ccs.
               map_of lm c \<noteq> None \<and>
               (dict_get lm c = VNone \<or>
                (\<exists>a prev. dict_get lm ''addr'' = VAddr a \<and> map_of old a = Some prev
                    \<and> dict_get lm c = dict_get prev c))" by (rule e1)
    show "\<forall>lm \<in> set C. \<forall>c \<in> fst ` set ccs. dict_get lm c \<noteq> VNone" by (rule e2)
    show "\<forall>lm \<in> set I. \<exists>c \<in> fst ` set ccs. dict_get lm c = VNone" by (rule e3)
  qed
qed

theorem reconcile_landmarks_partition_witness:
  "reconcile_landmarks
     [(1, [(''addr'', VAddr 1), (''longitude'', VFloat 0), (''latitude'', VFloat 0), (''USA'', VInt 70)])]
     [(1, [(''addr'', VAddr 1), (''longitude'', VFloat 0), (''latitude'', VFloat 0)]),
      (2, [(''addr'', VAddr 2), (''longitude'', VFloat 5), (''latitude'', VFloat 5)])]
     [(''USA'', \<lparr>ISO_A3 = ''USA'', ISO_A2 = ''US'', NAME = ''United States''\<rparr>)]
   = Inr ([[(''addr'', VAddr 1), (''longitude'', VFloat 0), (''latitude'', VFloat 0), (''USA'', VInt 70)]],
          [[(''addr'', VAddr 2), (''longitude'', VFloat 5), (''latitude'', VFloat 5), (''USA'', VNone)]])"
proof -
  let ?new = "[(1::nat, [(''addr'', VAddr 1), (''longitude'', VFloat 0), (''latitude'', VFloat 0)]),
      (2, [(''addr'', VAddr 2), (''longitude'', VFloat 5), (''latitude'', VFloat 5)])]"
  let ?ccs = "[(''USA'', \<lparr>ISO_A3 = ''USA'', ISO_A2 = ''US'', NAME = ''United States''\<rparr>)]"
  have c: "\<exists>x y. coordinate lm ''longitude'' = Inr x \<and> coordinate lm ''latitude'' = Inr y"
    if "(a, lm) \<in> set ?new" for a lm
    using that by (auto simp: coordinate_def getitem_def as_number_def and_then_def)
  have k: "distinct (map fst ?new)" by simp
  have ad: "map_of lm ''addr'' = Some (VAddr a)" if "(a, lm) \<in> set ?new" for a lm
    using that by auto
  have u: "''addr'' \<notin> fst ` set ?ccs" by simp
  from reconcile_landmarks_partition[OF c k ad u]
  show ?thesis
    by (simp add: reconcile_landmarks_def not_same_location_def coordinate_def getitem_def
        as_number_def and_then_def haversine_km_same dict_get_def EMPTY_LM_def old_record_def)
qed

section \<open>Properties of the distance computer\<close>

lemma py_round_of_int: "py_round (of_int n) = n"
  by (simp add: py_round_def)

lemma py_round_near: "\<bar>of_int (py_round x) - x\<bar> \<le> 1 / 2"
  unfolding py_round_def Let_def by (auto simp: abs_if; linarith)

lemma py_round_nonneg: "0 \<le> x \<Longrightarrow> 0 \<le> py_round x"
  unfolding py_round_def Let_def by (auto; linarith?)

lemma py_round_nonpos: "x \<le> 0 \<Longrightarrow> py_round x \<le> 0"
  using py_round_near[of x] by (auto simp: abs_if split: if_splits; linarith)

lemma py_round_pos: "1 / 2 < x \<Longrightarrow> 0 < py_round x"
  using py_round_near[of x] by (auto simp: abs_if split: if_splits; linarith)

text \<open>The rounded magnitude \<open>round(dist / resolution) * resolution\<close>.\<close>

lemma rounded_near:
  fixes r d :: real
  assumes "r \<noteq> 0"
  shows "\<bar>of_int (py_round (d / r)) * r - d\<bar> \<le> \<bar>r\<bar> / 2"
proof -
  have "of_int (py_round (d / r)) * r - d = (of_int (py_round (d / r)) - d / r) * r"
    using assms by (simp add: field_simps)
  then have "\<bar>of_int (py_round (d / r)) * r - d\<bar> = \<bar>of_int (py_round (d / r)) - d / r\<bar> * \<bar>r\<bar>"
    by (simp add: abs_mult)
  also have "\<dots> \<le> (1 / 2) * \<bar>r\<bar>"
    by (rule mult_right_mono[OF py_round_near]) simp
  finally show ?thesis by simp
qed

lemma rounded_nonneg:
  fixes r d :: real
  assumes "r \<noteq> 0" "0 \<le> d"
  shows "0 \<le> of_int (py_round (d / r)) * r"
proof (cases "0 < r")
  case True
  with assms have "0 \<le> d / r" by simp
  then have "0 \<le> py_round (d / r)" by (rule py_round_nonneg)
  with True show ?thesis by simp
next
  case False
  with assms have r: "r < 0" by simp
  with assms have "d / r \<le> 0" by (simp add: divide_nonneg_neg)
  then have "py_round (d / r) \<le> 0" by (rule py_round_nonpos)
  with r show ?thesis by (simp add: mult_nonpos_nonpos)
qed

lemma rounded_pos:
  fixes r d :: real
  assumes "r \<noteq> 0" "\<bar>r\<bar> / 2 < d"
  shows "0 < of_int (py_round (d / r)) * r"
proof -
  from assms have d: "0 \<le> d" by linarith
  have "of_int (py_round (d / r)) * r \<noteq> 0"
  proof
    assume "of_int (py_round (d / r)) * r = 0"
    with rounded_near[OF assms(1), of d] have "\<bar>d\<bar> \<le> \<bar>r\<bar> / 2" by simp
    with assms(2) show False by linarith
  qed
  with rounded_nonneg[OF assms(1) d] show ?thesis by linarith
qed

lemma landmark_distance_value:
  assumes "resolution \<noteq> 0"
  shows "\<exists>v. landmark_distance S resolution g = Inr v \<and>
           as_number v = Inr ((if intersects0 S g then - 1 else 1) *
              (of_int (py_round (distance0 S g / resolution)) * resolution))"
  using assms by (auto simp: landmark_distance_def Let_def as_number_def)

lemma landmark_distance_zero_resolution:
  "landmark_distance S 0 g = Inl ZeroDivisionError"
  by (simp add: landmark_distance_def)

lemma landmark_distance_100km:
  assumes "distance0 S g = 100000" "\<not> intersects0 S g"
  shows "landmark_distance S 10 g = Inr (VInt 100000)"
proof -
  have "py_round (100000 / 10) = 10000"
    using py_round_of_int[of 10000] by simp
  then show ?thesis using assms by (simp add: landmark_distance_def Let_def py_int_def)
qed

lemma landmark_distance_not_None: "landmark_distance S r g = Inr v \<Longrightarrow> v \<noteq> VNone"
  by (auto simp: landmark_distance_def Let_def split: if_splits)

lemma analyze_loop_step:
  assumes "analyze_loop S crs lon lat r ((cc, g0) # maps) lm = Inr lm'"
  shows "\<exists>lm1. analyze_loop S crs lon lat r maps lm1 = Inr lm' \<and>
           (lm1 = lm \<or>
            (map_of lm cc = Some VNone \<and>
             (\<exists>g d. repair S (to_aeqd S crs lon lat g0) = Some g \<and>
                    landmark_distance S r g = Inr d \<and> lm1 = AList.update cc d lm)))"
  using assms
  by (auto simp: getitem_def split: option.splits if_splits sum.splits)

lemma analyze_loop_keeps_known:
  "analyze_loop S crs lon lat r maps lm = Inr lm' \<Longrightarrow> map_of lm k = Some v \<Longrightarrow> v \<noteq> VNone
     \<Longrightarrow> map_of lm' k = Some v"
proof (induction maps arbitrary: lm)
  case Nil
  then show ?case by simp
next
  case (Cons p maps)
  obtain cc mapg where p: "p = (cc, mapg)" by (cases p)
  from analyze_loop_step[OF Cons.prems(1)[unfolded p]]
  obtain lm1 where rest: "analyze_loop S crs lon lat r maps lm1 = Inr lm'"
    and lm1: "lm1 = lm \<or> (map_of lm cc = Some VNone \<and> (\<exists>d. lm1 = AList.update cc d lm))"
    by blast
  from lm1 Cons.prems(2,3) have "map_of lm1 k = Some v"
    by (auto simp: update_conv)
  from Cons.IH[OF rest this Cons.prems(3)] show ?case .
qed

lemma analyze_loop_keeps_others:
  "analyze_loop S crs lon lat r maps lm = Inr lm' \<Longrightarrow> k \<notin> fst ` set maps
     \<Longrightarrow> map_of lm' k = map_of lm k"
proof (induction maps arbitrary: lm)
  case Nil
  then show ?case by simp
next
  case (Cons p maps)
  obtain cc mapg where p: "p = (cc, mapg)" by (cases p)
  from analyze_loop_step[OF Cons.prems(1)[unfolded p]]
  obtain lm1 where rest: "analyze_loop S crs lon lat r maps lm1 = Inr lm'"
    and lm1: "lm1 = lm \<or> (\<exists>d. lm1 = AList.update cc d lm)"
    by blast
  from Cons.prems(2) have k: "k \<noteq> cc" "k \<notin> fst ` set maps" by (auto simp: p)
  from lm1 k(1) have "map_of lm1 k = map_of lm k" by (auto simp: update_conv)
  with Cons.IH[OF rest k(2)] show ?case by simp
qed

lemma update_present_keys:
  "map_of al k = Some v \<Longrightarrow> map fst (AList.update k w al) = map fst al"
  by (induction al) auto

lemma analyze_loop_keys:
  "analyze_loop S crs lon lat r maps lm = Inr lm' \<Longrightarrow> map fst lm' = map fst lm"
proof (induction maps arbitrary: lm)
  case Nil
  then show ?case by simp
next
  case (Cons p maps)
  obtain cc mapg where p: "p = (cc, mapg)" by (cases p)
  from analyze_loop_step[OF Cons.prems(1)[unfolded p]]
  obtain lm1 where rest: "analyze_loop S crs lon lat r maps lm1 = Inr lm'"
    and lm1: "lm1 = lm \<or> (map_of lm cc = Some VNone \<and> (\<exists>d. lm1 = AList.update cc d lm))"
    by blast
  from lm1 have "map fst lm1 = map fst lm" by (auto simp: update_present_keys)
  with Cons.IH[OF rest] show ?case by simp
qed

lemma analyze_loop_stores:
  "analyze_loop S crs lon lat r maps lm = Inr lm' \<Longrightarrow> distinct (map fst maps)
     \<Longrightarrow> (k, mapg) \<in> set maps \<Longrightarrow> map_of lm k = Some VNone
     \<Longrightarrow> repair S (to_aeqd S crs lon lat mapg) = Some g
     \<Longrightarrow> \<exists>v. landmark_distance S r g = Inr v \<and> map_of lm' k = Some v"
proof (induction maps arbitrary: lm)
  case Nil
  then show ?case by simp
next
  case (Cons p maps)
  obtain cc g0 where p: "p = (cc, g0)" by (cases p)
  show ?case
  proof (cases "cc = k")
    case True
    with Cons.prems p have g0: "g0 = mapg" and notin: "k \<notin> fst ` set maps"
      by (auto simp: image_iff)
    from Cons.prems obtain d where d: "landmark_distance S r g = Inr d"
      and rest: "analyze_loop S crs lon lat r maps (AList.update k d lm) = Inr lm'"
      by (auto simp: p True g0 getitem_def split: sum.splits)
    from analyze_loop_keeps_others[OF rest notin] have "map_of lm' k = Some d"
      by (simp add: update_conv)
    with d show ?thesis by blast
  next
    case False
    with Cons.prems p have mem: "(k, mapg) \<in> set maps" and dist: "distinct (map fst maps)" by auto
    from Cons.prems obtain lm1 where rest: "analyze_loop S crs lon lat r maps lm1 = Inr lm'"
      and lm1: "map_of lm1 k = Some VNone"
      using False
      by (auto simp: p getitem_def update_conv split: option.splits if_splits sum.splits)
    from Cons.IH[OF rest dist mem lm1 Cons.prems(5)] show ?thesis .
  qed
qed

lemma analyze_loop_idem:
  "analyze_loop S crs lon lat r maps lm = Inr lm' \<Longrightarrow> analyze_loop S crs lon lat r maps lm' = Inr lm'"
proof (induction maps arbitrary: lm)
  case Nil
  then show ?case by simp
next
  case (Cons p maps)
  obtain cc g0 where p: "p = (cc, g0)" by (cases p)
  from Cons.prems obtain v where v: "map_of lm cc = Some v"
    by (auto simp: p getitem_def split: option.splits)
  from Cons.prems have "map fst lm' = map fst lm" by (rule analyze_loop_keys)
  then have "fst ` set lm' = fst ` set lm" by (metis set_map)
  with v obtain v' where v': "map_of lm' cc = Some v'"
    by (metis domI domD dom_map_of_conv_image_fst)
  show ?case
  proof (cases "v = VNone")
    case False
    with Cons.prems v have rest: "analyze_loop S crs lon lat r maps lm = Inr lm'"
      by (simp add: p getitem_def)
    from analyze_loop_keeps_known[OF rest v False] Cons.IH[OF rest]
    show ?thesis using False by (simp add: p getitem_def)
  next
    case True
    show ?thesis
    proof (cases "repair S (to_aeqd S crs lon lat g0)")
      case None
      with Cons.prems v True have rest: "analyze_loop S crs lon lat r maps lm = Inr lm'"
        by (simp add: p getitem_def)
      from Cons.IH[OF rest] v' None show ?thesis by (simp add: p getitem_def)
    next
      case (Some g)
      with Cons.prems v True obtain d where d: "landmark_distance S r g = Inr d"
        and rest: "analyze_loop S crs lon lat r maps (AList.update cc d lm) = Inr lm'"
        by (auto simp: p getitem_def split: sum.splits)
      have "map_of (AList.update cc d lm) cc = Some d" by (simp add: update_conv)
      from analyze_loop_keeps_known[OF rest this landmark_distance_not_None[OF d]]
      have "map_of lm' cc = Some d" .
      with Cons.IH[OF rest] landmark_distance_not_None[OF d] show ?thesis
        by (simp add: p getitem_def)
    qed
  qed
qed

lemma analyze_loop_new_values:
  "analyze_loop S crs lon lat r maps lm = Inr lm' \<Longrightarrow> map_of lm k = Some VNone
     \<Longrightarrow> map_of lm' k = Some v \<Longrightarrow> v \<noteq> VNone
     \<Longrightarrow> \<exists>mapg g. (k, mapg) \<in> set maps \<and> repair S (to_aeqd S crs lon lat mapg) = Some g
            \<and> landmark_distance S r g = Inr v"
proof (induction maps arbitrary: lm)
  case Nil
  then show ?case by simp
next
  case (Cons p maps)
  obtain cc g0 where p: "p = (cc, g0)" by (cases p)
  from analyze_loop_step[OF Cons.prems(1)[unfolded p]]
  obtain lm1 where rest: "analyze_loop S crs lon lat r maps lm1 = Inr lm'"
    and lm1: "lm1 = lm \<or>
            (map_of lm cc = Some VNone \<and>
             (\<exists>g d. repair S (to_aeqd S crs lon lat g0) = Some g \<and>
                    landmark_distance S r g = Inr d \<and> lm1 = AList.update cc d lm))"
    by blast
  show ?case
  proof (cases "map_of lm1 k = Some VNone")
    case True
    from Cons.IH[OF rest True Cons.prems(3,4)] show ?thesis by (auto simp: p)
  next
    case False
    with lm1 Cons.prems(2) obtain g d where gd: "repair S (to_aeqd S crs lon lat g0) = Some g"
      "landmark_distance S r g = Inr d" "lm1 = AList.update cc d lm" by auto
    with False Cons.prems(2) have k: "cc = k" by (auto simp: update_conv split: if_splits)
    then have "map_of lm1 k = Some d" by (simp add: gd update_conv)
    from analyze_loop_keeps_known[OF rest this landmark_distance_not_None[OF gd(2)]] Cons.prems(3)
    have "d = v" by simp
    with gd k show ?thesis by (auto simp: p)
  qed
qed

text \<open>
  C4.  The distance computer is idempotent.  When a run on a landmark returns, a second
  run on its result returns the same record; the record has the same keys in the same
  order; and every entry that was known before the run (not \<open>None\<close>) has the same
  value afterwards, so only unknown entries are ever filled in.  The record's two
  coordinates are assumed to be present values, as \<open>load_landmarks\<close> stores them.
\<close>

theorem analyze_landmark_idempotent:
  assumes "analyze_landmark S W lm = Inr lm'"
    and "dict_get lm ''longitude'' \<noteq> VNone" and "dict_get lm ''latitude'' \<noteq> VNone"
  shows "analyze_landmark S W lm' = Inr lm'
         \<and> map fst lm' = map fst lm
         \<and> (\<forall>k v. map_of lm k = Some v \<and> v \<noteq> VNone \<longrightarrow> map_of lm' k = Some v)"
proof -
  from assms(1) obtain maps crs r where W: "W = Some (maps, crs, r)"
    by (cases W) (auto simp: analyze_landmark_def)
  from assms(1) obtain lon lat where lon: "map_of lm ''longitude'' = Some lon"
    and lat: "map_of lm ''latitude'' = Some lat"
    and loop: "analyze_loop S crs lon lat r maps lm = Inr lm'"
    by (auto simp: W analyze_landmark_def and_then_def getitem_def split: option.splits)
  from assms(2,3) lon lat have nn: "lon \<noteq> VNone" "lat \<noteq> VNone" by (auto simp: dict_get_def)
  have lon': "map_of lm' ''longitude'' = Some lon"
    by (rule analyze_loop_keeps_known[OF loop lon nn(1)])
  have lat': "map_of lm' ''latitude'' = Some lat"
    by (rule analyze_loop_keeps_known[OF loop lat nn(2)])
  have "analyze_landmark S W lm' = Inr lm'"
    using analyze_loop_idem[OF loop] lon' lat'
    by (simp add: W analyze_landmark_def and_then_def getitem_def)
  moreover have "map fst lm' = map fst lm" by (rule analyze_loop_keys[OF loop])
  moreover have "\<forall>k v. map_of lm k = Some v \<and> v \<noteq> VNone \<longrightarrow> map_of lm' k = Some v"
    using analyze_loop_keeps_known[OF loop] by blast
  ultimately show ?thesis by blast
qed

text \<open>Evaluation on the one-dimensional instance.\<close>

lemma segments_sel:
  "is_valid segments = (\<lambda>g. fst g \<le> snd g)"
  "buffer0 segments = (\<lambda>g. Some (min (fst g) (snd g), max (fst g) (snd g)))"
  "unary_union segments = segment_union"
  "to_aeqd segments = (\<lambda>crs lon lat g. segment_shift lon g)"
  "distance0 segments = segment_distance"
  "intersects0 segments = (\<lambda>g. fst g \<le> 0 \<and> 0 \<le> snd g)"
  by (simp_all add: segments_def)

lemma py_round_10000: "py_round 10000 = 10000"
  using py_round_of_int[of 10000] by simp

lemma example_run:
  "analyze_landmark segments (Some ([(''USA'', (100000, 200000)), (''MEX'', (-5, 7))], ''WGS84'', 10))
      [(''addr'', VAddr 1), (''longitude'', VFloat 0), (''latitude'', VFloat 0),
       (''USA'', VNone), (''MEX'', VNone)]
   = Inr [(''addr'', VAddr 1), (''longitude'', VFloat 0), (''latitude'', VFloat 0),
       (''USA'', VInt 100000), (''MEX'', VInt 0)]"
  by (simp add: analyze_landmark_def and_then_def getitem_def repair_def segments_sel
      segment_shift_def landmark_distance_def segment_distance_def Let_def py_round_10000 py_int_def
      py_round_def)

theorem analyze_landmark_idempotent_witness:
  "analyze_landmark segments (Some ([(''USA'', (100000, 200000)), (''MEX'', (-5, 7))], ''WGS84'', 10))
      [(''addr'', VAddr 1), (''longitude'', VFloat 0), (''latitude'', VFloat 0),
       (''USA'', VNone), (''MEX'', VNone)]
   = Inr [(''addr'', VAddr 1), (''longitude'', VFloat 0), (''latitude'', VFloat 0),
       (''USA'', VInt 100000), (''MEX'', VInt 0)]
   \<and> analyze_landmark segments (Some ([(''USA'', (100000, 200000)), (''MEX'', (-5, 7))], ''WGS84'', 10))
      [(''addr'', VAddr 1), (''longitude'', VFloat 0), (''latitude'', VFloat 0),
       (''USA'', VInt 100000), (''MEX'', VInt 0)]
   = Inr [(''addr'', VAddr 1), (''longitude'', VFloat 0), (''latitude'', VFloat 0),
       (''USA'', VInt 100000), (''MEX'', VInt 0)]"
  using analyze_landmark_idempotent[OF example_run] example_run
  by (simp add: dict_get_def)

lemma analyze_loop_returns:
  "resolution \<noteq> 0 \<Longrightarrow> fst ` set maps \<subseteq> fst ` set lm
     \<Longrightarrow> \<exists>lm'. analyze_loop S crs lon lat resolution maps lm = Inr lm'"
proof (induction maps arbitrary: lm)
  case Nil
  then show ?case by simp
next
  case (Cons p maps)
  obtain cc mapg where p: "p = (cc, mapg)" by (cases p)
  from Cons.prems(2) have "cc \<in> fst ` set lm" and sub: "fst ` set maps \<subseteq> fst ` set lm"
    by (auto simp: p)
  then obtain v where v: "map_of lm cc = Some v"
    by (metis domD dom_map_of_conv_image_fst)
  show ?case
  proof (cases "v \<noteq> VNone")
    case True
    with Cons.IH[OF Cons.prems(1) sub] v show ?thesis by (simp add: p getitem_def)
  next
    case False
    then have vn: "v = VNone" by simp
    show ?thesis
    proof (cases "repair S (to_aeqd S crs lon lat mapg)")
      case None
      with Cons.IH[OF Cons.prems(1) sub] v vn show ?thesis by (simp add: p getitem_def)
    next
      case (Some g)
      from landmark_distance_value[OF Cons.prems(1), of S g]
      obtain d where d: "landmark_distance S resolution g = Inr d" by blast
      have "map fst (AList.update cc d lm) = map fst lm" using v by (rule update_present_keys)
      then have "fst ` set (AList.update cc d lm) = fst ` set lm" by (metis set_map)
      with sub have "fst ` set maps \<subseteq> fst ` set (AList.update cc d lm)" by simp
      from Cons.IH[OF Cons.prems(1) this] v vn Some d show ?thesis by (simp add: p getitem_def)
    qed
  qed
qed

text \<open>
  C5.  Take a landmark record that has its two coordinates and an entry for every
  country of the maps, a resolution other than zero, and a country whose entry is
  \<open>None\<close> and whose transformed map is valid or can be repaired.  Then the run of
  \<open>analyze_landmark\<close> returns, and the value it has stored for that country is a
  number whose magnitude \<open>q\<close> is \<open>round(dist / resolution) * resolution\<close>: a multiple
  of the resolution, at most half a resolution away from the planar distance, and not
  negative.  It is stored as \<open>- q\<close> exactly when the origin intersects the transformed
  map, so a landmark inside a country gets a non-positive value and a landmark outside
  and more than half a resolution away a positive one; a landmark 100000 units outside
  at resolution 10 gets the integer 100000.  The arithmetic is that of the reals: it
  agrees with the floating-point arithmetic of the source wherever the quotient and the
  product are exact, as they are for 100000 and 10.
\<close>

theorem analyze_landmark_stores_distance:
  assumes "resolution \<noteq> 0"
    and "map_of lm ''longitude'' = Some lon" and "map_of lm ''latitude'' = Some lat"
    and "fst ` set maps \<subseteq> fst ` set lm"
    and "distinct (map fst maps)" and "(cc, mapg) \<in> set maps" and "map_of lm cc = Some VNone"
    and "repair S (to_aeqd S crs lon lat mapg) = Some g"
    and "0 \<le> distance0 S g"
  shows "\<exists>lm' x q. analyze_landmark S (Some (maps, crs, resolution)) lm = Inr lm'
            \<and> and_then (getitem lm' cc) as_number = Inr x
            \<and> q = of_int (py_round (distance0 S g / resolution)) * resolution
            \<and> \<bar>q - distance0 S g\<bar> \<le> \<bar>resolution\<bar> / 2
            \<and> 0 \<le> q
            \<and> x = (if intersects0 S g then - q else q)
            \<and> (intersects0 S g \<longrightarrow> x \<le> 0)
            \<and> (\<not> intersects0 S g \<and> \<bar>resolution\<bar> / 2 < distance0 S g \<longrightarrow> 0 < x)
            \<and> (\<not> intersects0 S g \<and> distance0 S g = 100000 \<and> resolution = 10
                  \<longrightarrow> map_of lm' cc = Some (VInt 100000))"
proof -
  from analyze_loop_returns[OF assms(1,4)]
  obtain lm' where loop: "analyze_loop S crs lon lat resolution maps lm = Inr lm'" by blast
  have run: "analyze_landmark S (Some (maps, crs, resolution)) lm = Inr lm'"
    using loop assms(2,3) by (simp add: analyze_landmark_def and_then_def getitem_def)
  from analyze_loop_stores[OF loop assms(5,6,7,8)]
  obtain v where v: "landmark_distance S resolution g = Inr v" and st: "map_of lm' cc = Some v"
    by blast
  define q where "q = of_int (py_round (distance0 S g / resolution)) * resolution"
  from landmark_distance_value[OF assms(1), of S g] v
  have num: "as_number v = Inr ((if intersects0 S g then - 1 else 1) * q)" by (auto simp: q_def)
  have near: "\<bar>q - distance0 S g\<bar> \<le> \<bar>resolution\<bar> / 2"
    unfolding q_def by (rule rounded_near[OF assms(1)])
  have nonneg: "0 \<le> q" unfolding q_def by (rule rounded_nonneg[OF assms(1,9)])
  have pos: "\<bar>resolution\<bar> / 2 < distance0 S g \<Longrightarrow> 0 < q"
    unfolding q_def by (rule rounded_pos[OF assms(1)])
  have x: "and_then (getitem lm' cc) as_number = Inr (if intersects0 S g then - q else q)"
    using st num by (simp add: and_then_def getitem_def)
  have km: "map_of lm' cc = Some (VInt 100000)"
    if "\<not> intersects0 S g" "distance0 S g = 100000" "resolution = 10"
    using landmark_distance_100km[OF that(2,1)] v st that(3) by simp
  show ?thesis
  proof (intro exI conjI)
    show "analyze_landmark S (Some (maps, crs, resolution)) lm = Inr lm'" by (rule run)
    show "and_then (getitem lm' cc) as_number = Inr (if intersects0 S g then - q else q)" by (rule x)
    show "q = of_int (py_round (distance0 S g / resolution)) * resolution" by (rule q_def)
    show "\<bar>q - distance0 S g\<bar> \<le> \<bar>resolution\<bar> / 2" by (rule near)
    show "0 \<le> q" by (rule nonneg)
    show "(if intersects0 S g then - q else q) = (if intersects0 S g then - q else q)" by (rule refl)
    show "intersects0 S g \<longrightarrow> (if intersects0 S g then - q else q) \<le> 0" using nonneg by simp
    show "\<not> intersects0 S g \<and> \<bar>resolution\<bar> / 2 < distance0 S g
            \<longrightarrow> 0 < (if intersects0 S g then - q else q)" using pos by simp
    show "\<not> intersects0 S g \<and> distance0 S g = 100000 \<and> resolution = 10
            \<longrightarrow> map_of lm' cc = Some (VInt 100000)" using km by blast
  qed
qed

theorem analyze_landmark_stores_distance_witness:
  "\<exists>lm'. analyze_landmark segments
            (Some ([(''USA'', (100000, 200000)), (''MEX'', (-5, 7))], ''WGS84'', 10))
            [(''addr'', VAddr 1), (''longitude'', VFloat 0), (''latitude'', VFloat 0),
             (''USA'', VNone), (''MEX'', VNone)] = Inr lm'
         \<and> map_of lm' ''USA'' = Some (VInt 100000)"
proof -
  let ?lm = "[(''addr'', VAddr 1), (''longitude'', VFloat 0), (''latitude'', VFloat 0),
             (''USA'', VNone), (''MEX'', VNone)]"
  let ?maps = "[(''USA'', (100000::real, 200000::real)), (''MEX'', (-5, 7))]"
  have r: "(10::real) \<noteq> 0" by simp
  have lon: "map_of ?lm ''longitude'' = Some (VFloat 0)" by simp
  have lat: "map_of ?lm ''latitude'' = Some (VFloat 0)" by simp
  have keys: "fst ` set ?maps \<subseteq> fst ` set ?lm" by simp
  have d: "distinct (map fst ?maps)" by simp
  have m: "(''USA'', (100000, 200000)) \<in> set ?maps" by simp
  have n: "map_of ?lm ''USA'' = Some VNone" by simp
  have rep: "repair segments (to_aeqd segments ''WGS84'' (VFloat 0) (VFloat 0) (100000, 200000))
               = Some (100000, 200000)"
    by (simp add: repair_def segments_sel segment_shift_def)
  have dist: "distance0 segments (100000, 200000) = 100000"
    by (simp add: segments_sel segment_distance_def)
  have out: "\<not> intersects0 segments (100000, 200000)" by (simp add: segments_sel)
  have nn: "0 \<le> distance0 segments (100000, 200000)" by (simp add: dist)
  from analyze_landmark_stores_distance[OF r lon lat keys d m n rep nn] out dist
  show ?thesis by blast
qed

text \<open>
  C10.  Given the behaviour of the geometry library that the claim starts from (a point
  that intersects a shape is at distance 0 from it, and no distance is negative), every
  value a run stores is a number that is not negative, and the value stored for a
  country whose transformed map contains the landmark is the integer 0.
\<close>

theorem analyze_landmark_never_negative:
  assumes "analyze_landmark S (Some (maps, crs, resolution)) lm = Inr lm'"
    and "\<And>g. intersects0 S g \<Longrightarrow> distance0 S g = 0"
    and "\<And>g. 0 \<le> distance0 S g"
  shows "(\<forall>k v. map_of lm k = Some VNone \<and> map_of lm' k = Some v \<and> v \<noteq> VNone
            \<longrightarrow> (\<exists>x. as_number v = Inr x \<and> 0 \<le> x))
         \<and> (\<forall>k mapg g. distinct (map fst maps) \<and> (k, mapg) \<in> set maps \<and> map_of lm k = Some VNone
               \<and> repair S (to_aeqd S crs (dict_get lm ''longitude'') (dict_get lm ''latitude'') mapg) = Some g
               \<and> intersects0 S g
            \<longrightarrow> map_of lm' k = Some (VInt 0))"
proof -
  from assms(1) obtain lon lat where lon: "map_of lm ''longitude'' = Some lon"
    and lat: "map_of lm ''latitude'' = Some lat"
    and loop: "analyze_loop S crs lon lat resolution maps lm = Inr lm'"
    by (auto simp: analyze_landmark_def and_then_def getitem_def split: option.splits)
  have ll: "dict_get lm ''longitude'' = lon" "dict_get lm ''latitude'' = lat"
    using lon lat by (simp_all add: dict_get_def)
  have stored: "\<exists>x. as_number v = Inr x \<and> 0 \<le> x \<and> (intersects0 S g \<longrightarrow> v = VInt 0)"
    if v: "landmark_distance S resolution g = Inr v" for g v
  proof -
    from v have r: "resolution \<noteq> 0" by (auto simp: landmark_distance_def)
    show ?thesis
    proof (cases "intersects0 S g")
      case True
      then have "distance0 S g = 0" by (rule assms(2))
      with v True r have "v = VInt 0"
        by (simp add: landmark_distance_def Let_def py_round_def py_int_def)
      then show ?thesis by (simp add: as_number_def)
    next
      case False
      from landmark_distance_value[OF r, of S g] v False
      have "as_number v = Inr (of_int (py_round (distance0 S g / resolution)) * resolution)"
        by auto
      with rounded_nonneg[OF r assms(3)[of g]] False show ?thesis by auto
    qed
  qed
  have one: "\<exists>x. as_number v = Inr x \<and> 0 \<le> x"
    if "map_of lm k = Some VNone" "map_of lm' k = Some v" "v \<noteq> VNone" for k v
    using analyze_loop_new_values[OF loop that] stored by blast
  have two: "map_of lm' k = Some (VInt 0)"
    if "distinct (map fst maps)" "(k, mapg) \<in> set maps" "map_of lm k = Some VNone"
      "repair S (to_aeqd S crs lon lat mapg) = Some g" "intersects0 S g" for k mapg g
    using analyze_loop_stores[OF loop that(1,2,3,4)] stored that(5) by force
  from one two show ?thesis unfolding ll by blast
qed

theorem analyze_landmark_never_negative_witness:
  "map_of [(''addr'', VAddr 1), (''longitude'', VFloat 0), (''latitude'', VFloat 0),
       (''USA'', VInt 100000), (''MEX'', VInt 0)] ''MEX'' = Some (VInt 0)
   \<and> intersects0 segments (-5, 7)
   \<and> as_number (VInt 100000) = Inr 100000"
proof -
  have a: "intersects0 segments g \<Longrightarrow> distance0 segments g = 0" for g
    by (simp add: segments_sel segment_distance_def)
  have b: "0 \<le> distance0 segments g" for g
    by (simp add: segments_sel segment_distance_def)
  from analyze_landmark_never_negative[OF example_run a b]
  show ?thesis by (simp add: segments_sel as_number_def)
qed

section \<open>Properties of the country map builder\<close>

lemma check_units_clean:
  "check_units S gus (all_gus, geo, err, grp) = Inr (all_gus', geo', err', grp') \<Longrightarrow> err' = []
     \<Longrightarrow> err = [] \<and> distinct gus \<and> set gus \<subseteq> fst ` set all_gus
         \<and> fst ` set all_gus' = fst ` set all_gus - set gus"
proof (induction gus arbitrary: all_gus geo err grp)
  case Nil
  then show ?case by simp
next
  case (Cons gu gus)
  show ?case
  proof (cases "map_of all_gus gu")
    case None
    with Cons.prems(1) obtain sh where "geo = Some sh" by (cases geo) auto
    with None Cons.prems(1) obtain err1 grp1 where
      rest: "check_units S gus (all_gus, geo, err1, grp1) = Inr (all_gus', geo', err', grp')"
      and e1: "err1 \<noteq> []"
      by (auto split: if_splits)
    from Cons.IH[OF rest Cons.prems(2)] e1 show ?thesis by simp
  next
    case (Some g)
    then have mem: "gu \<in> fst ` set all_gus" by (metis domI dom_map_of_conv_image_fst)
    from Some Cons.prems(1) obtain err1 grp1 where
      rest: "check_units S gus (AList.delete gu all_gus, Some g, err1, grp1) = Inr (all_gus', geo', err', grp')"
      and e1: "err1 = [] \<Longrightarrow> err = []"
      by (auto split: if_splits)
    from Cons.IH[OF rest Cons.prems(2)]
    have ih: "err1 = []" "distinct gus" "set gus \<subseteq> fst ` set (AList.delete gu all_gus)"
      "fst ` set all_gus' = fst ` set (AList.delete gu all_gus) - set gus" by simp_all
    have del: "fst ` set (AList.delete gu all_gus) = fst ` set all_gus - {gu}"
      by (simp add: delete_keys flip: set_map)
    from ih del mem e1 show ?thesis by auto
  qed
qed

lemma check_groups_clean:
  "check_groups S rules (all_gus, geo, err, groups) = Inr (all_gus', geo', err', groups') \<Longrightarrow> err' = []
     \<Longrightarrow> err = [] \<and> distinct (concat (map snd rules))
         \<and> set (concat (map snd rules)) \<subseteq> fst ` set all_gus
         \<and> fst ` set all_gus' = fst ` set all_gus - set (concat (map snd rules))"
proof (induction rules arbitrary: all_gus geo err groups)
  case Nil
  then show ?case by simp
next
  case (Cons r rules)
  obtain cc gus where r: "r = (cc, gus)" by (cases r)
  from Cons.prems(1) obtain a1 g1 e1 grp where
    units: "check_units S gus (all_gus, geo, err, []) = Inr (a1, g1, e1, grp)"
    and rest: "check_groups S rules (a1, g1, e1, AList.update cc grp groups) = Inr (all_gus', geo', err', groups')"
    by (auto simp: r split: sum.splits)
  from Cons.IH[OF rest Cons.prems(2)]
  have ih: "e1 = []" "distinct (concat (map snd rules))" "set (concat (map snd rules)) \<subseteq> fst ` set a1"
    "fst ` set all_gus' = fst ` set a1 - set (concat (map snd rules))" by simp_all
  from check_units_clean[OF units ih(1)]
  have u: "err = []" "distinct gus" "set gus \<subseteq> fst ` set all_gus"
    "fst ` set a1 = fst ` set all_gus - set gus" by simp_all
  from ih u show ?case by (auto simp: r)
qed

lemma check_groups_keys:
  "check_groups S rules (all_gus, geo, err, groups) = Inr (all_gus', geo', err', groups')
     \<Longrightarrow> fst ` set groups' = fst ` set groups \<union> fst ` set rules"
proof (induction rules arbitrary: all_gus geo err groups)
  case Nil
  then show ?case by simp
next
  case (Cons r rules)
  obtain cc gus where r: "r = (cc, gus)" by (cases r)
  from Cons.prems(1) obtain a1 g1 e1 grp where
    rest: "check_groups S rules (a1, g1, e1, AList.update cc grp groups) = Inr (all_gus', geo', err', groups')"
    by (auto simp: r split: sum.splits)
  have "fst ` set (AList.update cc grp groups) = insert cc (fst ` set groups)"
    by (simp add: update_keys flip: set_map) auto
  with Cons.IH[OF rest] show ?case by (auto simp: r)
qed

lemma check_groups_distinct:
  "check_groups S rules (all_gus, geo, err, groups) = Inr (all_gus', geo', err', groups')
     \<Longrightarrow> distinct (map fst groups) \<Longrightarrow> distinct (map fst groups')"
proof (induction rules arbitrary: all_gus geo err groups)
  case Nil
  then show ?case by simp
next
  case (Cons r rules)
  obtain cc gus where r: "r = (cc, gus)" by (cases r)
  from Cons.prems(1) obtain a1 g1 e1 grp where
    rest: "check_groups S rules (a1, g1, e1, AList.update cc grp groups) = Inr (all_gus', geo', err', groups')"
    by (auto simp: r split: sum.splits)
  from Cons.prems(2) have "distinct (map fst (AList.update cc grp groups))" by (rule distinct_update)
  from Cons.IH[OF rest this] show ?case .
qed

lemma update_absent: "k \<notin> fst ` set al \<Longrightarrow> AList.update k v al = al @ [(k, v)]"
  by (induction al) auto

lemma merge_add_rules_appends:
  "merge_add_rules add_rules rules = Inr rules' \<Longrightarrow> rules' = rules @ add_rules"
proof (induction add_rules arbitrary: rules)
  case Nil
  then show ?case by simp
next
  case (Cons r add_rules)
  obtain cc gus where r: "r = (cc, gus)" by (cases r)
  from Cons.prems have absent: "cc \<notin> fst ` set rules"
    and rest: "merge_add_rules add_rules (AList.update cc gus rules) = Inr rules'"
    by (auto simp: r split: if_splits)
  from Cons.IH[OF rest] update_absent[OF absent] show ?case by (simp add: r)
qed

lemma merge_groups_keys:
  "merge_groups S groups maps = Inr maps'
     \<Longrightarrow> fst ` set maps' = fst ` set maps \<union> fst ` set groups
         \<and> (distinct (map fst maps) \<longrightarrow> distinct (map fst maps'))"
proof (induction groups arbitrary: maps)
  case Nil
  then show ?case by simp
next
  case (Cons r groups)
  obtain cc gus where r: "r = (cc, gus)" by (cases r)
  from Cons.prems have
    rest: "merge_groups S groups (AList.update cc (unary_union S gus) maps) = Inr maps'"
    by (auto simp: r Let_def split: if_splits option.splits)
  have k: "fst ` set (AList.update cc (unary_union S gus) maps) = insert cc (fst ` set maps)"
    by (simp add: update_keys flip: set_map) auto
  have d: "distinct (map fst maps) \<Longrightarrow> distinct (map fst (AList.update cc (unary_union S gus) maps))"
    by (rule distinct_update)
  from Cons.IH[OF rest] k d show ?case by (auto simp: r)
qed

lemma unknown_codes_none:
  "unknown_codes ccs ks = [] \<Longrightarrow> set ks \<subseteq> fst ` set ccs"
  by (induction ks) (auto split: if_splits)

lemma uncovered_none:
  "uncovered rules ccs = [] \<Longrightarrow> fst ` set ccs \<subseteq> fst ` set rules"
  by (induction rules ccs rule: uncovered.induct) (simp_all split: if_splits)

lemma append_rule_keys:
  "fst ` set (append_rule sov gu add_rules) = insert sov (fst ` set add_rules)"
proof (cases "map_of add_rules sov")
  case None
  then show ?thesis by (simp add: append_rule_def)
next
  case (Some gus)
  then have "sov \<in> fst ` set add_rules" by (metis domI dom_map_of_conv_image_fst)
  then show ?thesis by (auto simp: append_rule_def Some update_keys simp flip: set_map)
qed

lemma read_features_add_rules:
  "read_features ccs rules fs (all_gus, add_rules, err) = (all_gus', add_rules', err')
     \<Longrightarrow> fst ` set add_rules \<subseteq> fst ` set ccs \<Longrightarrow> fst ` set add_rules' \<subseteq> fst ` set ccs"
proof (induction fs arbitrary: all_gus add_rules err)
  case Nil
  then show ?case by simp
next
  case (Cons f fs)
  from Cons.prems(1) obtain a1 r1 e1 where
    rest: "read_features ccs rules fs (a1, r1, e1) = (all_gus', add_rules', err')"
    and r1: "r1 = add_rules \<or> (SOV_A3 f \<in> fst ` set ccs \<and> r1 = append_rule (SOV_A3 f) (GU_A3 f) add_rules)"
    by (auto split: if_splits)
  have "fst ` set r1 \<subseteq> fst ` set ccs"
  proof (cases "r1 = add_rules")
    case True
    with Cons.prems(2) show ?thesis by simp
  next
    case False
    with r1 have sov: "SOV_A3 f \<in> fst ` set ccs"
      and e: "r1 = append_rule (SOV_A3 f) (GU_A3 f) add_rules" by simp_all
    have "fst ` set r1 = insert (SOV_A3 f) (fst ` set add_rules)"
      unfolding e by (rule append_rule_keys)
    with sov Cons.prems(2) show ?thesis by simp
  qed
  from Cons.IH[OF rest this] show ?case .
qed

lemma read_map_add_rules:
  "read_map ccs rules mf = (map_crs, all_gus, add_rules, err) \<Longrightarrow> fst ` set add_rules \<subseteq> fst ` set ccs"
proof (cases mf)
  case (OpenFails e)
  then show "read_map ccs rules mf = (map_crs, all_gus, add_rules, err) \<Longrightarrow> ?thesis"
    by (auto simp: read_map_def)
next
  case (MapColl crs fs exc)
  assume run: "read_map ccs rules mf = (map_crs, all_gus, add_rules, err)"
  obtain a r e where rf: "read_features ccs rules fs ([], [], []) = (a, r, e)"
    by (cases "read_features ccs rules fs ([], [], [])") auto
  from run have "r = add_rules" by (simp add: read_map_def MapColl rf)
  with read_features_add_rules[OF rf] show ?thesis by simp
qed

text \<open>
  What holds of every run that returns: the map has exactly the country codes of the
  table as its keys, each once, and no unit is named twice by the rules it was given.
  So a run never returns a partial map, and a rule set that names a unit twice always
  makes the run fail.
\<close>

lemma load_maps_returns:
  assumes "load_maps S mf rules ccs = Inr (maps, crs)"
  shows "fst ` set maps = fst ` set ccs \<and> distinct (map fst maps)
         \<and> distinct (concat (map snd rules))"
proof -
  obtain map_crs all_gus add_rules err2 where rm: "read_map ccs rules mf = (map_crs, all_gus, add_rules, err2)"
    by (cases "read_map ccs rules mf") auto
  from assms obtain rules' where mr: "merge_add_rules add_rules rules = Inr rules'"
    by (auto simp: load_maps_def rm Let_def split: sum.splits)
  define err0 where "err0 = unknown_codes ccs (map fst rules) @ err2 @ uncovered rules' ccs"
  from assms obtain a g groups where
    cg: "check_groups S rules' (all_gus, None, err0, []) = Inr (a, g, [], groups)"
    and mg: "merge_groups S (sort_key fst groups) [] = Inr maps"
    by (auto simp: load_maps_def rm mr Let_def err0_def split: sum.splits if_splits option.splits)
  from check_groups_clean[OF cg] have e0: "err0 = []" and dc: "distinct (concat (map snd rules'))"
    by simp_all
  from e0 have u: "unknown_codes ccs (map fst rules) = []" and c: "uncovered rules' ccs = []"
    by (simp_all add: err0_def)
  have r': "rules' = rules @ add_rules" using mr by (rule merge_add_rules_appends)
  have k1: "fst ` set rules \<subseteq> fst ` set ccs" using unknown_codes_none[OF u] by simp
  have k2: "fst ` set add_rules \<subseteq> fst ` set ccs" using rm by (rule read_map_add_rules)
  have k3: "fst ` set ccs \<subseteq> fst ` set rules'" using c by (rule uncovered_none)
  have rk: "fst ` set rules' = fst ` set ccs" using k1 k2 k3 by (auto simp: r')
  have gk: "fst ` set groups = fst ` set rules'" using check_groups_keys[OF cg] by simp
  from merge_groups_keys[OF mg] have mk: "fst ` set maps = fst ` set groups" and md: "distinct (map fst maps)"
    by (simp_all flip: set_map)
  from dc have "distinct (concat (map snd rules))" by (simp add: r')
  with mk gk rk md show ?thesis by simp
qed

text \<open>
  C2.  A country whose unit shapes are valid and whose union is invalid but is made
  valid by \<open>buffer(0)\<close>: the claim expects the repaired shape in the returned map.
  The run ends with \<open>TypeError\<close> instead and writes no diagnostic, because line 488
  calls the boolean \<open>sh.is_valid\<close>; the same happens when the repair fails, so the
  diagnostic of line 490 is never written.
\<close>

theorem load_maps_repaired_union_raises:
  "load_maps segments
    (MapColl ''WGS84'' [\<lparr>GU_A3 = ''X'', SOV_A3 = ''A'', geometry = (0, 1)\<rparr>,
                       \<lparr>GU_A3 = ''Y'', SOV_A3 = ''A'', geometry = (-5, -3)\<rparr>] None)
    []
    [(''A'', \<lparr>ISO_A3 = ''A'', ISO_A2 = ''A'', NAME = ''Aland''\<rparr>)]
   = Inl (TypeError, [])
   \<and> \<not> is_valid segments (unary_union segments [(0, 1), (-5, -3)])
   \<and> buffer0 segments (unary_union segments [(0, 1), (-5, -3)]) = Some (-3, 0)
   \<and> is_valid segments (-3, 0)"
  by (simp add: load_maps_def read_map_def append_rule_def segments_sel segment_union_def)

text \<open>
  C9.  The rule of country A names a unit Y that the map does not have and then the
  unit X twice.  The claim expects the second reference to X to be reported as not
  found.  The run reports Y and then ends with \<open>UnboundLocalError\<close> at
  \<open>asShape(geo)\<close>, since the handler of line 461 does not leave the loop body and no
  earlier pop has bound \<open>geo\<close>; the references to X are never looked at.
\<close>

theorem load_maps_missing_first_unit_raises:
  "load_maps segments
    (MapColl ''WGS84'' [\<lparr>GU_A3 = ''X'', SOV_A3 = ''A'', geometry = (0, 1)\<rparr>] None)
    [(''A'', [''Y'', ''X'', ''X''])]
    [(''A'', \<lparr>ISO_A3 = ''A'', ISO_A2 = ''A'', NAME = ''Aland''\<rparr>)]
   = Inl (UnboundLocalError, [GUNotFound ''Y''])"
  by (simp add: load_maps_def read_map_def)

section \<open>Properties of the atomic replacement\<close>

lemma tmp_not_name: "tmp_path rnd dir base ext \<noteq> name_path dir base ext"
proof
  assume "tmp_path rnd dir base ext = name_path dir base ext"
  then have "''-'' @ rnd @ ext = ext" by (simp add: tmp_path_def name_path_def)
  then have "length (''-'' @ rnd @ ext) = length ext" by (rule arg_cong)
  then show False by simp
qed

lemma xname_not_name: "xname_path rnd dir base ext \<noteq> name_path dir base ext"
proof
  assume "xname_path rnd dir base ext = name_path dir base ext"
  then have "''-'' @ rnd @ ext @ ''.'' = ext" by (simp add: xname_path_def name_path_def)
  then have "length (''-'' @ rnd @ ext @ ''.'') = length ext" by (rule arg_cong)
  then show False by simp
qed

lemma xname_not_tmp: "xname_path rnd dir base ext \<noteq> tmp_path rnd dir base ext"
  by (simp add: xname_path_def tmp_path_def)

lemma same_directory:
  "fst (tmp_path rnd dir base ext) = fst (name_path dir base ext)"
  "fst (xname_path rnd dir base ext) = fst (name_path dir base ext)"
  by (simp_all add: tmp_path_def xname_path_def name_path_def)

lemma atomic_rewrite_safe:
  assumes "atomic_rewrite lib flt fs rnd dir base ext mode body = (st, fs', tr)"
    and "Replace (xname_path rnd dir base ext) (name_path dir base ext) \<notin> set tr"
  shows "fs' (name_path dir base ext) = fs (name_path dir base ext)"
  using assms tmp_not_name[of rnd dir base ext] xname_not_name[of rnd dir base ext]
    xname_not_tmp[of rnd dir base ext]
  unfolding atomic_rewrite_def cleanup_def Let_def
  by (auto split: if_splits sum.splits option.splits prod.splits status.splits)

lemma atomic_rewrite_replaced:
  assumes "atomic_rewrite lib flt fs rnd dir base ext mode body = (st, fs', tr)"
    and "Replace (xname_path rnd dir base ext) (name_path dir base ext) \<in> set tr"
  shows "\<exists>codec. open_with_auto_compression FileObject ext = Inr codec \<and> snd body = None
           \<and> fs' (name_path dir base ext) = Some (encode lib codec (fst body))
           \<and> take 7 tr =
                [Create (tmp_path rnd dir base ext),
                 Write (tmp_path rnd dir base ext) (encode lib codec (fst body)),
                 Flush (tmp_path rnd dir base ext), Flush (tmp_path rnd dir base ext),
                 Fsync (tmp_path rnd dir base ext),
                 Link (tmp_path rnd dir base ext) (xname_path rnd dir base ext),
                 Replace (xname_path rnd dir base ext) (name_path dir base ext)]"
  using assms tmp_not_name[of rnd dir base ext] xname_not_name[of rnd dir base ext]
    xname_not_tmp[of rnd dir base ext]
  unfolding atomic_rewrite_def cleanup_def Let_def
  by (auto split: if_splits sum.splits option.splits prod.splits status.splits)

lemma atomic_rewrite_done:
  assumes "atomic_rewrite lib flt fs rnd dir base ext mode body = (Done, fs', tr)"
  shows "Replace (xname_path rnd dir base ext) (name_path dir base ext) \<in> set tr
         \<and> length tr = 8 \<and> last tr = Unlink (tmp_path rnd dir base ext)
         \<and> fs' (tmp_path rnd dir base ext) = None \<and> fs' (xname_path rnd dir base ext) = None"
  using assms tmp_not_name[of rnd dir base ext] xname_not_name[of rnd dir base ext]
    xname_not_tmp[of rnd dir base ext]
  unfolding atomic_rewrite_def cleanup_def Let_def
  by (auto split: if_splits sum.splits option.splits prod.splits status.splits)

lemma atomic_rewrite_completes:
  assumes "open_with_auto_compression FileObject ext = Inr codec"
    and "mode \<in> set [''w'', ''wb'', ''wt'', ''w+'', ''w+b'', ''w+t'']"
    and "fs (tmp_path rnd dir base ext) = None" and "fs (xname_path rnd dir base ext) = None"
  shows "\<exists>fs'. atomic_rewrite lib NoFault fs rnd dir base ext mode (text, None) =
           (Done, fs',
                [Create (tmp_path rnd dir base ext),
                 Write (tmp_path rnd dir base ext) (encode lib codec text),
                 Flush (tmp_path rnd dir base ext), Flush (tmp_path rnd dir base ext),
                 Fsync (tmp_path rnd dir base ext),
                 Link (tmp_path rnd dir base ext) (xname_path rnd dir base ext),
                 Replace (xname_path rnd dir base ext) (name_path dir base ext),
                 Unlink (tmp_path rnd dir base ext)])
         \<and> fs' (name_path dir base ext) = Some (encode lib codec text)"
  using assms tmp_not_name[of rnd dir base ext] xname_not_name[of rnd dir base ext]
    xname_not_tmp[of rnd dir base ext]
  unfolding atomic_rewrite_def cleanup_def Let_def
  by (auto split: if_splits sum.splits option.splits prod.splits status.splits)

lemma atomic_rewrite_plain_extension:
  assumes "open_with_auto_compression FileObject ext = Inl e"
  shows "\<exists>st fs' tr. atomic_rewrite lib flt fs rnd dir base ext mode body = (st, fs', tr)
           \<and> st \<noteq> Done \<and> fs' (name_path dir base ext) = fs (name_path dir base ext)"
  using assms tmp_not_name[of rnd dir base ext] xname_not_name[of rnd dir base ext]
    xname_not_tmp[of rnd dir base ext]
  unfolding atomic_rewrite_def cleanup_def Let_def
  by (auto split: if_splits sum.splits option.splits prod.splits status.splits)

text \<open>
  Whatever ends a run of \<open>atomic_rewrite\<close> (its normal end, an exception of the
  body, an I/O error at any system call, or the end of the process before any system
  call), the temporary file lies in the directory of the destination; as long as the
  final \<open>os.replace\<close> has not been made, the destination holds what it held before
  the run (or still does not exist); once it has been made, the destination holds the
  whole text the body wrote, and the calls before it were, in this order, the creation
  of the temporary file, the write, the flushes, the \<open>fsync\<close> and the link.  A run
  that ends normally has made the replacement and then deleted the temporary file.
  With \<open>atomic_rewrite_completes\<close>, this is the protocol of the claim for a
  destination with a compression extension.
\<close>

theorem atomic_rewrite_atomicity:
  assumes "atomic_rewrite lib flt fs rnd dir base ext mode body = (st, fs', tr)"
  shows "fst (tmp_path rnd dir base ext) = fst (name_path dir base ext)
       \<and> (Replace (xname_path rnd dir base ext) (name_path dir base ext) \<notin> set tr
            \<longrightarrow> fs' (name_path dir base ext) = fs (name_path dir base ext))
       \<and> (Replace (xname_path rnd dir base ext) (name_path dir base ext) \<in> set tr
            \<longrightarrow> (\<exists>codec. open_with_auto_compression FileObject ext = Inr codec \<and> snd body = None
                 \<and> fs' (name_path dir base ext) = Some (encode lib codec (fst body))
                 \<and> take 7 tr =
                     [Create (tmp_path rnd dir base ext),
                      Write (tmp_path rnd dir base ext) (encode lib codec (fst body)),
                      Flush (tmp_path rnd dir base ext), Flush (tmp_path rnd dir base ext),
                      Fsync (tmp_path rnd dir base ext),
                      Link (tmp_path rnd dir base ext) (xname_path rnd dir base ext),
                      Replace (xname_path rnd dir base ext) (name_path dir base ext)]))
       \<and> (st = Done
            \<longrightarrow> Replace (xname_path rnd dir base ext) (name_path dir base ext) \<in> set tr
                \<and> length tr = 8 \<and> last tr = Unlink (tmp_path rnd dir base ext))"
proof (intro conjI impI)
  show "fst (tmp_path rnd dir base ext) = fst (name_path dir base ext)"
    by (rule same_directory)
next
  assume "Replace (xname_path rnd dir base ext) (name_path dir base ext) \<notin> set tr"
  with assms show "fs' (name_path dir base ext) = fs (name_path dir base ext)"
    by (rule atomic_rewrite_safe)
next
  assume "Replace (xname_path rnd dir base ext) (name_path dir base ext) \<in> set tr"
  with assms show "\<exists>codec. open_with_auto_compression FileObject ext = Inr codec \<and> snd body = None
                 \<and> fs' (name_path dir base ext) = Some (encode lib codec (fst body))
                 \<and> take 7 tr =
                     [Create (tmp_path rnd dir base ext),
                      Write (tmp_path rnd dir base ext) (encode lib codec (fst body)),
                      Flush (tmp_path rnd dir base ext), Flush (tmp_path rnd dir base ext),
                      Fsync (tmp_path rnd dir base ext),
                      Link (tmp_path rnd dir base ext) (xname_path rnd dir base ext),
                      Replace (xname_path rnd dir base ext) (name_path dir base ext)]"
    by (rule atomic_rewrite_replaced)
next
  assume "st = Done"
  with assms atomic_rewrite_done[of lib flt fs rnd dir base ext mode body fs' tr]
  show "Replace (xname_path rnd dir base ext) (name_path dir base ext) \<in> set tr"
    "length tr = 8" "last tr = Unlink (tmp_path rnd dir base ext)"
    by simp_all
qed

lemma killed_run:
  "atomic_rewrite plain_lib (KilledAt 6) fs0 ''k3'' ''out'' ''r.csv'' ''.gz'' ''wt'' (''new'', None)
   = (Killed, fs0((''out'', ''r.csv-k3.gz'') \<mapsto> ''new'', (''out'', ''r.csv-k3.gz.'') \<mapsto> ''new''),
      [Create (''out'', ''r.csv-k3.gz''), Write (''out'', ''r.csv-k3.gz'') ''new'',
       Flush (''out'', ''r.csv-k3.gz''), Flush (''out'', ''r.csv-k3.gz''), Fsync (''out'', ''r.csv-k3.gz''),
       Link (''out'', ''r.csv-k3.gz'') (''out'', ''r.csv-k3.gz.'')])"
  by (simp add: atomic_rewrite_def tmp_path_def xname_path_def name_path_def fs0_def
      open_with_auto_compression_def plain_lib_def Let_def)

theorem atomic_rewrite_atomicity_witness:
  "atomic_rewrite plain_lib (KilledAt 6) fs0 ''k3'' ''out'' ''r.csv'' ''.gz'' ''wt'' (''new'', None)
   = (Killed, fs0((''out'', ''r.csv-k3.gz'') \<mapsto> ''new'', (''out'', ''r.csv-k3.gz.'') \<mapsto> ''new''),
      [Create (''out'', ''r.csv-k3.gz''), Write (''out'', ''r.csv-k3.gz'') ''new'',
       Flush (''out'', ''r.csv-k3.gz''), Flush (''out'', ''r.csv-k3.gz''), Fsync (''out'', ''r.csv-k3.gz''),
       Link (''out'', ''r.csv-k3.gz'') (''out'', ''r.csv-k3.gz.'')])
   \<and> (fs0((''out'', ''r.csv-k3.gz'') \<mapsto> ''new'', (''out'', ''r.csv-k3.gz.'') \<mapsto> ''new''))
         (''out'', ''r.csv.gz'') = fs0 (''out'', ''r.csv.gz'')
   \<and> fs0 (''out'', ''r.csv.gz'') = Some ''old''"
  using atomic_rewrite_atomicity[OF killed_run] killed_run
  by (simp add: tmp_path_def xname_path_def name_path_def fs0_def)

text \<open>
  C8.  For a destination without a compression extension, such as \<open>results.csv\<close>,
  the claim expects the text in a temporary file that is then renamed over the
  destination.  \<open>atomic_rewrite\<close> hands the temporary file object to
  \<open>open_with_auto_compression\<close>, whose last branch asserts that it was given a string
  or a file descriptor (line 154): every such run ends other than normally, never makes
  the replacement and leaves the destination as it was; an undisturbed run creates the
  temporary file, raises \<open>AssertionError\<close> and deletes it again.
\<close>

theorem atomic_rewrite_plain_extension_never_persists:
  "fst (atomic_rewrite lib flt fs rnd dir base ''.csv'' mode body) \<noteq> Done
   \<and> Replace (xname_path rnd dir base ''.csv'') (name_path dir base ''.csv'')
         \<notin> set (snd (snd (atomic_rewrite lib flt fs rnd dir base ''.csv'' mode body)))
   \<and> fst (snd (atomic_rewrite lib flt fs rnd dir base ''.csv'' mode body)) (name_path dir base ''.csv'')
       = fs (name_path dir base ''.csv'')
   \<and> atomic_rewrite lib NoFault Map.empty rnd dir base ''.csv'' ''wt'' (text, None)
       = (Raised AssertionError, Map.empty,
          [Create (tmp_path rnd dir base ''.csv''), Unlink (tmp_path rnd dir base ''.csv'')])"
proof -
  obtain st fs' tr where e: "atomic_rewrite lib flt fs rnd dir base ''.csv'' mode body = (st, fs', tr)"
    by (cases "atomic_rewrite lib flt fs rnd dir base ''.csv'' mode body") auto
  have o: "open_with_auto_compression FileObject ''.csv'' = Inl AssertionError"
    by (simp add: open_with_auto_compression_def)
  from atomic_rewrite_plain_extension[OF o, of lib flt fs rnd dir base mode body] e
  have 1: "st \<noteq> Done" and 3: "fs' (name_path dir base ''.csv'') = fs (name_path dir base ''.csv'')"
    by auto
  have 2: "Replace (xname_path rnd dir base ''.csv'') (name_path dir base ''.csv'') \<notin> set tr"
  proof
    assume "Replace (xname_path rnd dir base ''.csv'') (name_path dir base ''.csv'') \<in> set tr"
    from atomic_rewrite_replaced[OF e this] o show False by auto
  qed
  have 4: "atomic_rewrite lib NoFault Map.empty rnd dir base ''.csv'' ''wt'' (text, None)
       = (Raised AssertionError, Map.empty,
          [Create (tmp_path rnd dir base ''.csv''), Unlink (tmp_path rnd dir base ''.csv'')])"
    by (simp add: atomic_rewrite_def cleanup_def o Let_def)
  from 1 2 3 4 show ?thesis by (simp add: e)
qed

section \<open>Properties of the result writer\<close>






lemma check_rows_passes:
  assumes "\<forall>row\<in>set rows. fst ` set row = set expected_keys"
  shows "check_rows lib expected_keys rows = None"
  using assms by (induction rows) auto






lemma first_error_all_values:
  "\<forall>r\<in>set rs. \<exists>x. r = Inr x \<Longrightarrow> first_error rs = None"
  by (induction rs rule: first_error.induct) auto

lemma sort_results_addresses:
  assumes "\<forall>row\<in>set results. \<exists>a. map_of row ''addr'' = Some (VAddr a)"
  shows "sort_results results = Inr (sort_key addr_key results)"
proof -
  have "\<forall>r\<in>set (map addr_of results). \<exists>x. r = Inr x"
    using assms by (auto simp: addr_of_def)
  then have "first_error (map addr_of results) = None" by (rule first_error_all_values)
  then show ?thesis by (simp add: sort_results_def)
qed

lemma meta_columns_props:
  "sorted (meta_columns (remdups ks) ccs) \<and> distinct (meta_columns (remdups ks) ccs)
   \<and> set (meta_columns (remdups ks) ccs)
       = {k \<in> set ks. k \<notin> {''addr'', ''latitude'', ''longitude''} \<and> k \<notin> fst ` set ccs}"
  by (auto simp: meta_columns_def)

lemma dist_columns_props:
  "sorted (dist_columns (remdups ks) ccs) \<and> distinct (dist_columns (remdups ks) ccs)
   \<and> set (dist_columns (remdups ks) ccs)
       = {k \<in> set ks. k \<notin> {''addr'', ''latitude'', ''longitude''} \<and> k \<in> fst ` set ccs}"
  by (auto simp: dist_columns_def)

text \<open>
  Where the destination has a compression extension and the two temporary names are
  free, an undisturbed run on a schema-consistent list ends normally, and the
  destination then holds the header and the rows of the claim: the rows sorted by
  address, the columns \<open>addr\<close>, the sorted metadata keys, \<open>longitude\<close>, \<open>latitude\<close>
  and the sorted country codes.
\<close>

lemma rewrite_results_output_order:
  assumes ne: "results \<noteq> []"
    and schema: "\<forall>row\<in>set results. fst ` set row = fst ` set (hd results)"
    and three: "{''addr'', ''longitude'', ''latitude''} \<subseteq> fst ` set (hd results)"
    and addrs: "\<forall>row\<in>set results. \<exists>a. map_of row ''addr'' = Some (VAddr a)"
    and codec: "open_with_auto_compression FileObject ext = Inr codec"
    and fresh: "fs (tmp_path rnd dir base ext) = None" "fs (xname_path rnd dir base ext) = None"
  shows "\<exists>fs' tr rows meta dists.
           rewrite_results lib NoFault fs rnd dir base ext results ccs = (Done, fs', tr)
         \<and> fs' (name_path dir base ext)
             = Some (encode lib codec
                 (csv_text lib ([''addr''] @ meta @ [''longitude'', ''latitude''] @ dists) rows))
         \<and> rows = sort_key addr_key results \<and> sorted (map addr_key rows) \<and> mset rows = mset results
         \<and> sorted meta \<and> distinct meta
         \<and> set meta = {k \<in> fst ` set (hd results).
                          k \<notin> {''addr'', ''latitude'', ''longitude''} \<and> k \<notin> fst ` set ccs}
         \<and> sorted dists \<and> distinct dists
         \<and> set dists = {k \<in> fst ` set (hd results).
                          k \<notin> {''addr'', ''latitude'', ''longitude''} \<and> k \<in> fst ` set ccs}"
proof -
  from ne obtain first others where res: "results = first # others" by (cases results) auto
  define ek where "ek = remdups (map fst first)"
  define meta where "meta = meta_columns ek ccs"
  define dists where "dists = dist_columns ek ccs"
  define rows where "rows = sort_key addr_key results"
  define content where "content = csv_text lib ([''addr''] @ meta @ [''longitude'', ''latitude''] @ dists) rows"
  have eks: "set ek = fst ` set first" by (simp add: ek_def)
  have t3: "''addr'' \<in> set ek" "''longitude'' \<in> set ek" "''latitude'' \<in> set ek"
    using three by (auto simp: eks res)
  have "\<forall>row\<in>set results. fst ` set row = set ek" using schema by (simp add: eks res)
  then have chk: "check_rows lib ek results = None" by (rule check_rows_passes)
  have srt: "sort_results results = Inr rows"
    unfolding rows_def by (rule sort_results_addresses[OF addrs])
  have mode: "''wt'' \<in> set [''w'', ''wb'', ''wt'', ''w+'', ''w+b'', ''w+t'']" by simp
  from atomic_rewrite_completes[OF codec mode fresh, of lib content]
  obtain fs' tr where run: "atomic_rewrite lib NoFault fs rnd dir base ext ''wt'' (content, None) = (Done, fs', tr)"
    and dest: "fs' (name_path dir base ext) = Some (encode lib codec content)" by blast
  have rr: "rewrite_results lib NoFault fs rnd dir base ext results ccs = (Done, fs', tr)"
    using t3 chk srt run
    by (simp add: rewrite_results_def res Let_def columns_def content_def meta_def dists_def
        flip: ek_def)
  have m: "sorted meta \<and> distinct meta
         \<and> set meta = {k \<in> fst ` set (hd results).
                          k \<notin> {''addr'', ''latitude'', ''longitude''} \<and> k \<notin> fst ` set ccs}"
    using meta_columns_props[of "map fst first" ccs] by (simp add: meta_def ek_def res)
  have d: "sorted dists \<and> distinct dists
         \<and> set dists = {k \<in> fst ` set (hd results).
                          k \<notin> {''addr'', ''latitude'', ''longitude''} \<and> k \<in> fst ` set ccs}"
    using dist_columns_props[of "map fst first" ccs] by (simp add: dists_def ek_def res)
  have r: "sorted (map addr_key rows) \<and> mset rows = mset results"
    by (simp add: rows_def)
  show ?thesis
  proof (intro exI conjI)
    show "rewrite_results lib NoFault fs rnd dir base ext results ccs = (Done, fs', tr)" by (rule rr)
    show "fs' (name_path dir base ext)
             = Some (encode lib codec
                 (csv_text lib ([''addr''] @ meta @ [''longitude'', ''latitude''] @ dists) rows))"
      using dest by (simp add: content_def)
    show "rows = sort_key addr_key results" by (rule rows_def)
    show "sorted (map addr_key rows)" using r by simp
    show "mset rows = mset results" using r by simp
    show "sorted meta" "distinct meta" using m by simp_all
    show "set meta = {k \<in> fst ` set (hd results).
                          k \<notin> {''addr'', ''latitude'', ''longitude''} \<and> k \<notin> fst ` set ccs}"
      using m by simp
    show "sorted dists" "distinct dists" using d by simp_all
    show "set dists = {k \<in> fst ` set (hd results).
                          k \<notin> {''addr'', ''latitude'', ''longitude''} \<and> k \<in> fst ` set ccs}"
      using d by simp
  qed
qed

text \<open>
  C7.  Two records with the same keys and the destination \<open>results.csv\<close>: the claim
  expects the records sorted by address and the columns written in the stated order.
  The run ends with \<open>AssertionError\<close> (the defect of C8, reached through line 650) and
  the destination does not exist afterwards: nothing is emitted.
\<close>

theorem rewrite_results_plain_csv_emits_nothing:
  "fst (rewrite_results plain_lib NoFault Map.empty ''k3'' ''out'' ''results'' ''.csv''
     [[(''addr'', VAddr 2), (''longitude'', VFloat 0), (''latitude'', VFloat 0), (''USA'', VInt 70)],
      [(''addr'', VAddr 1), (''longitude'', VFloat 1), (''latitude'', VFloat 1), (''USA'', VInt 0)]]
     [(''USA'', \<lparr>ISO_A3 = ''USA'', ISO_A2 = ''US'', NAME = ''United States''\<rparr>)])
     = Raised AssertionError
   \<and> fst (snd (rewrite_results plain_lib NoFault Map.empty ''k3'' ''out'' ''results'' ''.csv''
     [[(''addr'', VAddr 2), (''longitude'', VFloat 0), (''latitude'', VFloat 0), (''USA'', VInt 70)],
      [(''addr'', VAddr 1), (''longitude'', VFloat 1), (''latitude'', VFloat 1), (''USA'', VInt 0)]]
     [(''USA'', \<lparr>ISO_A3 = ''USA'', ISO_A2 = ''US'', NAME = ''United States''\<rparr>)]))
       (''out'', ''results.csv'') = None"
  by (simp add: rewrite_results_def sort_results_def addr_of_def atomic_rewrite_def cleanup_def
      open_with_auto_compression_def tmp_path_def Let_def)

theorem rewrite_results_plain_csv_emits_nothing_witness:
  "fst (rewrite_results plain_lib NoFault Map.empty ''k3'' ''out'' ''results'' ''.csv''
     [[(''addr'', VAddr 2), (''longitude'', VFloat 0), (''latitude'', VFloat 0), (''USA'', VInt 70)],
      [(''addr'', VAddr 1), (''longitude'', VFloat 1), (''latitude'', VFloat 1), (''USA'', VInt 0)]]
     [(''USA'', \<lparr>ISO_A3 = ''USA'', ISO_A2 = ''US'', NAME = ''United States''\<rparr>)])
     \<noteq> Done"
  using rewrite_results_plain_csv_emits_nothing by simp

end
